theory Spec2Isabelle
  imports Complex_Main "HOL-Library.Sublist" "HOL-Library.Multiset" "HOL-Library.AList"
begin

section \<open>The shell search provider of Nautilus\<close>

text \<open>
  A shallow embedding of \<^verbatim>\<open>src/nautilus-shell-search-provider.c\<close>. The application object
  is a record that every handler takes and returns; the calls the handlers make on their
  collaborators (the D-Bus invocation, the search engine, the application hold count, the
  file metadata source) are appended to a log of effects, in program order. A dereference
  of a null pointer is the fault value of a sum type.
\<close>

subsection \<open>Strings\<close>

text \<open>
  A C string is a list of bytes without the terminating NUL. \<^verbatim>\<open>strstr\<close> returns the
  suffix of the haystack that starts at the first occurrence of the needle, or NULL.
\<close>

fun strstr :: "string \<Rightarrow> string \<Rightarrow> string option" where
  "strstr [] needle = (if needle = [] then Some [] else None)"
| "strstr (c # cs) needle =
     (if prefix needle (c # cs) then Some (c # cs) else strstr cs needle)"

text \<open>
  \<^verbatim>\<open>g_utf8_strlen (p, -1)\<close> walks the bytes, jumping from each lead byte by the length
  its value announces (the table \<^verbatim>\<open>g_utf8_skip\<close> of GLib).
\<close>

definition g_utf8_skip :: "char \<Rightarrow> nat" where
  "g_utf8_skip c =
     (let b = (of_char c :: nat) in
      if b < 192 then 1
      else if b < 224 then 2
      else if b < 240 then 3
      else if b < 248 then 4
      else if b < 252 then 5
      else if b < 254 then 6
      else 1)"

fun g_utf8_strlen :: "string \<Rightarrow> nat" where
  "g_utf8_strlen [] = 0"
| "g_utf8_strlen (c # cs) = Suc (g_utf8_strlen (drop (g_utf8_skip c - 1) cs))"

text \<open>
  \<^verbatim>\<open>g_strsplit (s, " ", -1)\<close>: the pieces of \<open>s\<close> between single space characters, empty
  pieces kept; the empty string has no piece at all.
\<close>

fun strsplit_pieces :: "string \<Rightarrow> string list" where
  "strsplit_pieces [] = [[]]"
| "strsplit_pieces (c # cs) =
     (if c = CHR '' '' then [] # strsplit_pieces cs
      else (case strsplit_pieces cs of
              [] \<Rightarrow> [[c]]
            | t # ts \<Rightarrow> (c # t) # ts))"

definition g_strsplit :: "string \<Rightarrow> string list" where
  "g_strsplit s = (if s = [] then [] else strsplit_pieces s)"

text \<open>\<^verbatim>\<open>g_strjoinv (" ", terms)\<close>.\<close>

fun g_strjoinv :: "string list \<Rightarrow> string" where
  "g_strjoinv [] = []"
| "g_strjoinv [t] = t"
| "g_strjoinv (t # ts) = t @ CHR '' '' # g_strjoinv ts"

subsection \<open>Collaborator objects\<close>

type_synonym GDBusMethodInvocation = nat
type_synonym NautilusSearchEngine = nat

record NautilusQuery =
  query_text :: string
  query_location :: string

text \<open>
  A search hit: its URI, the data the engine attached to it (here the full-text rank),
  and the relevance that \<^verbatim>\<open>nautilus_search_hit_compute_scores\<close> stores in it. The
  relevance is a \<^verbatim>\<open>gdouble\<close>; it is modelled as a real number, so NaN is outside the model.
\<close>

record NautilusSearchHit =
  hit_uri :: string
  hit_fts_rank :: real
  hit_relevance :: real

datatype GIcon = ThemedIcon "string list" | FileIcon string

record NautilusBookmark =
  bookmark_name :: string
  bookmark_uri :: string
  bookmark_icon :: "GIcon option"

record GMount =
  mount_name :: string
  mount_is_shadowed :: bool
  mount_volume :: "nat option"
  mount_default_location_uri :: string

record GVolume =
  volume_drive :: "nat option"
  volume_mount :: "GMount option"

record GDrive =
  drive_volumes :: "GVolume list"

record GVolumeMonitor =
  connected_drives :: "GDrive list"
  monitor_volumes :: "GVolume list"
  monitor_mounts :: "GMount list"

record GdkPixbuf =
  pixbuf_width :: int
  pixbuf_height :: int
  pixbuf_rowstride :: int
  pixbuf_has_alpha :: bool
  pixbuf_bits_per_sample :: int
  pixbuf_n_channels :: int
  pixbuf_pixels :: "char list"

record NautilusFile =
  file_uri :: string
  file_display_name :: string
  file_thumbnail_path :: "string option"
  file_gicon :: "GIcon option"
  file_icon_pixbuf :: GdkPixbuf

datatype GVariant = VString string | VPixbuf GdkPixbuf

type_synonym meta = "(string \<times> GVariant) list"

text \<open>
  The functions of GLib, GIO and libnautilus-private that the file calls and whose code
  is elsewhere: Unicode normalisation and lowercasing, the scoring of a hit against a
  query, the order in which a hash table lists its values, the home directory, the file
  object of a URI and the serialisation of an icon.
\<close>

record externals =
  g_utf8_normalize_nfd :: "string \<Rightarrow> string"
  g_utf8_strdown :: "string \<Rightarrow> string"
  search_hit_scores :: "NautilusSearchHit \<Rightarrow> NautilusQuery \<Rightarrow> real"
  hash_table_order :: "NautilusSearchHit list \<Rightarrow> NautilusSearchHit list"
  nautilus_get_home_directory_uri :: string
  nautilus_file_get_by_uri :: "string \<Rightarrow> NautilusFile"
  g_icon_to_string :: "GIcon \<Rightarrow> string"

subsection \<open>The application state\<close>

record PendingSearch =
  engine :: NautilusSearchEngine
  query :: NautilusQuery
  hits :: "(string \<times> NautilusSearchHit) list"
  invocation :: GDBusMethodInvocation

record ResultMetasData =
  rmd_invocation :: GDBusMethodInvocation
  rmd_uris :: "string list"

datatype effect =
    ReturnValue GDBusMethodInvocation "string list"
  | ReturnMetas GDBusMethodInvocation "meta list"
  | ReturnError GDBusMethodInvocation string
  | EngineNew NautilusSearchEngine
  | EngineSetQuery NautilusSearchEngine NautilusQuery
  | EngineStart NautilusSearchEngine
  | EngineStop NautilusSearchEngine
  | EngineUnref NautilusSearchEngine
  | ApplicationHold
  | ApplicationRelease
  | FileGetByUri string
  | CallWhenReady "NautilusFile list" ResultMetasData

record NautilusShellSearchProviderApp =
  current_search :: "PendingSearch option"
  metas_cache :: "(string \<times> meta) list"
  bookmarks :: "NautilusBookmark list"
  volumes :: GVolumeMonitor
  effects :: "effect list"
  engines_created :: nat

datatype fault = NullPointer

subsection \<open>Hash tables\<close>

text \<open>
  A \<^verbatim>\<open>GHashTable\<close> keyed by strings is an association list with distinct keys.
  \<^verbatim>\<open>g_hash_table_replace\<close> and \<^verbatim>\<open>g_hash_table_insert\<close> differ only in which of two equal
  key pointers the table keeps.
\<close>

definition g_hash_table_replace ::
  "string \<Rightarrow> 'v \<Rightarrow> (string \<times> 'v) list \<Rightarrow> (string \<times> 'v) list" where
  "g_hash_table_replace k v h = AList.update k v h"

definition g_hash_table_insert ::
  "string \<Rightarrow> 'v \<Rightarrow> (string \<times> 'v) list \<Rightarrow> (string \<times> 'v) list" where
  "g_hash_table_insert k v h = AList.update k v h"

definition g_hash_table_remove :: "string \<Rightarrow> (string \<times> 'v) list \<Rightarrow> (string \<times> 'v) list" where
  "g_hash_table_remove k h = AList.delete k h"

definition g_hash_table_lookup :: "(string \<times> 'v) list \<Rightarrow> string \<Rightarrow> 'v option" where
  "g_hash_table_lookup h k = map_of h k"

text \<open>
  \<^verbatim>\<open>g_hash_table_get_values\<close> lists the values in an order that depends on the hash
  function and on the history of the table.
\<close>

definition g_hash_table_get_values ::
  "externals \<Rightarrow> (string \<times> NautilusSearchHit) list \<Rightarrow> NautilusSearchHit list" where
  "g_hash_table_get_values ext h = hash_table_order ext (map snd h)"

subsection \<open>Preparing strings and scoring hits\<close>

definition prepare_string_for_compare :: "externals \<Rightarrow> string \<Rightarrow> string" where
  "prepare_string_for_compare ext s = g_utf8_strdown ext (g_utf8_normalize_nfd ext s)"

definition nautilus_search_hit_new :: "string \<Rightarrow> NautilusSearchHit" where
  "nautilus_search_hit_new uri = \<lparr>hit_uri = uri, hit_fts_rank = 0, hit_relevance = 0\<rparr>"

definition nautilus_search_hit_compute_scores ::
  "externals \<Rightarrow> NautilusSearchHit \<Rightarrow> NautilusQuery \<Rightarrow> NautilusSearchHit" where
  "nautilus_search_hit_compute_scores ext hit q = hit\<lparr>hit_relevance := search_hit_scores ext hit q\<rparr>"

subsection \<open>Finishing and cancelling a search\<close>

text \<open>
  \<^verbatim>\<open>pending_search_free\<close> destroys the hit table and drops the references to the query
  and to the engine; only the last is visible outside.
\<close>

definition pending_search_free :: "PendingSearch \<Rightarrow> effect list" where
  "pending_search_free search = [EngineUnref (engine search)]"

definition finish_current_search ::
  "NautilusShellSearchProviderApp \<Rightarrow> GDBusMethodInvocation \<Rightarrow> string list
     \<Rightarrow> NautilusShellSearchProviderApp" where
  "finish_current_search self invoc result =
     (let self1 = self\<lparr>effects := effects self @ [ReturnValue invoc result]\<rparr> in
      case current_search self1 of
        None \<Rightarrow> self1
      | Some search \<Rightarrow>
          self1\<lparr>effects := effects self1 @ [ApplicationRelease] @ pending_search_free search,
                current_search := None\<rparr>)"

definition cancel_current_search ::
  "NautilusShellSearchProviderApp \<Rightarrow> NautilusShellSearchProviderApp" where
  "cancel_current_search self =
     (case current_search self of
        None \<Rightarrow> self
      | Some search \<Rightarrow>
          finish_current_search
            (self\<lparr>effects := effects self @ [EngineStop (engine search)]\<rparr>)
            (invocation search) [])"

subsection \<open>Engine notifications\<close>

fun hits_added_loop :: "externals \<Rightarrow> PendingSearch \<Rightarrow> NautilusSearchHit list \<Rightarrow> PendingSearch" where
  "hits_added_loop ext search [] = search"
| "hits_added_loop ext search (hit # l) =
     (let hit' = nautilus_search_hit_compute_scores ext hit (query search)
      in hits_added_loop ext
           (search\<lparr>hits := g_hash_table_replace (hit_uri hit') hit' (hits search)\<rparr>) l)"

text \<open>
  The callbacks read \<^verbatim>\<open>self->current_search\<close> and do not look at the engine that sent
  the signal. With no current search, the first access through the null pointer is a
  fault; the two loops make none when the list of hits is empty.
\<close>

definition search_hits_added_cb ::
  "externals \<Rightarrow> NautilusShellSearchProviderApp \<Rightarrow> NautilusSearchHit list
     \<Rightarrow> fault + NautilusShellSearchProviderApp" where
  "search_hits_added_cb ext self hs =
     (case current_search self of
        None \<Rightarrow> (if hs = [] then Inr self else Inl NullPointer)
      | Some search \<Rightarrow> Inr (self\<lparr>current_search := Some (hits_added_loop ext search hs)\<rparr>))"

fun hits_subtracted_loop :: "PendingSearch \<Rightarrow> NautilusSearchHit list \<Rightarrow> PendingSearch" where
  "hits_subtracted_loop search [] = search"
| "hits_subtracted_loop search (hit # l) =
     hits_subtracted_loop (search\<lparr>hits := g_hash_table_remove (hit_uri hit) (hits search)\<rparr>) l"

definition search_hits_subtracted_cb ::
  "NautilusShellSearchProviderApp \<Rightarrow> NautilusSearchHit list
     \<Rightarrow> fault + NautilusShellSearchProviderApp" where
  "search_hits_subtracted_cb self hs =
     (case current_search self of
        None \<Rightarrow> (if hs = [] then Inr self else Inl NullPointer)
      | Some search \<Rightarrow> Inr (self\<lparr>current_search := Some (hits_subtracted_loop search hs)\<rparr>))"

definition search_hit_compare_relevance :: "NautilusSearchHit \<Rightarrow> NautilusSearchHit \<Rightarrow> int" where
  "search_hit_compare_relevance a b =
     (if hit_relevance a > hit_relevance b then -1
      else if hit_relevance a = hit_relevance b then 0
      else 1)"

text \<open>
  \<^verbatim>\<open>g_list_sort\<close> is a stable sort by a comparison function: an element goes before
  the first one it does not compare greater than.
\<close>

fun g_list_insert_sorted :: "('a \<Rightarrow> 'a \<Rightarrow> int) \<Rightarrow> 'a \<Rightarrow> 'a list \<Rightarrow> 'a list" where
  "g_list_insert_sorted cmp x [] = [x]"
| "g_list_insert_sorted cmp x (y # ys) =
     (if cmp x y \<le> 0 then x # y # ys else y # g_list_insert_sorted cmp x ys)"

definition g_list_sort :: "('a \<Rightarrow> 'a \<Rightarrow> int) \<Rightarrow> 'a list \<Rightarrow> 'a list" where
  "g_list_sort cmp xs = foldr (g_list_insert_sorted cmp) xs []"

definition search_finished_cb ::
  "externals \<Rightarrow> NautilusShellSearchProviderApp \<Rightarrow> fault + NautilusShellSearchProviderApp" where
  "search_finished_cb ext self =
     (case current_search self of
        None \<Rightarrow> Inl NullPointer
      | Some search \<Rightarrow>
          (let hs = g_list_sort search_hit_compare_relevance
                      (g_hash_table_get_values ext (hits search))
           in Inr (finish_current_search self (invocation search) (map hit_uri hs))))"

definition search_error_cb ::
  "NautilusShellSearchProviderApp \<Rightarrow> string \<Rightarrow> fault + NautilusShellSearchProviderApp" where
  "search_error_cb self error_message =
     (case current_search self of
        None \<Rightarrow> Inl NullPointer
      | Some search \<Rightarrow> Inr (finish_current_search self (invocation search) []))"

subsection \<open>The scan of bookmarks and mounts\<close>

text \<open>The inner loop over the terms, which leaves at the first term that is not found.\<close>

fun terms_found :: "string \<Rightarrow> string list \<Rightarrow> bool" where
  "terms_found prepared [] = True"
| "terms_found prepared (t # ts) =
     (if strstr prepared t = None then False else terms_found prepared ts)"

text \<open>What both matching loops do with a candidate that was found.\<close>

definition add_found_hit :: "externals \<Rightarrow> string \<Rightarrow> PendingSearch \<Rightarrow> PendingSearch" where
  "add_found_hit ext uri search =
     (let hit = nautilus_search_hit_compute_scores ext (nautilus_search_hit_new uri) (query search)
      in search\<lparr>hits := g_hash_table_replace uri hit (hits search)\<rparr>)"

fun match_bookmarks ::
  "externals \<Rightarrow> string list \<Rightarrow> NautilusBookmark list \<Rightarrow> PendingSearch \<Rightarrow> PendingSearch" where
  "match_bookmarks ext terms [] search = search"
| "match_bookmarks ext terms (bookmark # rest) search =
     (let prepared = prepare_string_for_compare ext (bookmark_name bookmark) in
      if terms_found prepared terms
      then match_bookmarks ext terms rest (add_found_hit ext (bookmark_uri bookmark) search)
      else match_bookmarks ext terms rest search)"

text \<open>
  The three loops that fill \<^verbatim>\<open>mounts_to_check\<close>, each prepending to the list. The
  result of \<^verbatim>\<open>g_volume_get_mount\<close> is prepended as it is, null or not.
\<close>

fun check_drive_volumes :: "GVolume list \<Rightarrow> GMount option list \<Rightarrow> GMount option list" where
  "check_drive_volumes [] mounts_to_check = mounts_to_check"
| "check_drive_volumes (volume # m) mounts_to_check =
     check_drive_volumes m (volume_mount volume # mounts_to_check)"

fun check_connected_drives :: "GDrive list \<Rightarrow> GMount option list \<Rightarrow> GMount option list" where
  "check_connected_drives [] mounts_to_check = mounts_to_check"
| "check_connected_drives (drive # l) mounts_to_check =
     check_connected_drives l (check_drive_volumes (drive_volumes drive) mounts_to_check)"

fun check_volumes_without_drive :: "GVolume list \<Rightarrow> GMount option list \<Rightarrow> GMount option list" where
  "check_volumes_without_drive [] mounts_to_check = mounts_to_check"
| "check_volumes_without_drive (volume # l) mounts_to_check =
     (if volume_drive volume = None
      then check_volumes_without_drive l (volume_mount volume # mounts_to_check)
      else check_volumes_without_drive l mounts_to_check)"

fun check_mounts_without_volume :: "GMount list \<Rightarrow> GMount option list \<Rightarrow> GMount option list" where
  "check_mounts_without_volume [] mounts_to_check = mounts_to_check"
| "check_mounts_without_volume (mount # l) mounts_to_check =
     (if mount_is_shadowed mount then check_mounts_without_volume l mounts_to_check
      else if mount_volume mount = None
      then check_mounts_without_volume l (Some mount # mounts_to_check)
      else check_mounts_without_volume l mounts_to_check)"

definition mounts_to_check_of :: "GVolumeMonitor \<Rightarrow> GMount option list" where
  "mounts_to_check_of monitor =
     check_mounts_without_volume (monitor_mounts monitor)
       (check_volumes_without_drive (monitor_volumes monitor)
          (check_connected_drives (connected_drives monitor) []))"

text \<open>
  The matching loop over \<^verbatim>\<open>mounts_to_check\<close>. It asks every element for its name; on a
  null element that is a fault.
\<close>

fun match_mounts ::
  "externals \<Rightarrow> string list \<Rightarrow> GMount option list \<Rightarrow> PendingSearch \<Rightarrow> fault + PendingSearch" where
  "match_mounts ext terms [] search = Inr search"
| "match_mounts ext terms (None # l) search = Inl NullPointer"
| "match_mounts ext terms (Some mount # l) search =
     (let prepared = prepare_string_for_compare ext (mount_name mount) in
      if terms_found prepared terms
      then match_mounts ext terms l (add_found_hit ext (mount_default_location_uri mount) search)
      else match_mounts ext terms l search)"

definition search_add_volumes_and_bookmarks ::
  "externals \<Rightarrow> NautilusShellSearchProviderApp \<Rightarrow> fault + NautilusShellSearchProviderApp" where
  "search_add_volumes_and_bookmarks ext self =
     (case current_search self of
        None \<Rightarrow> Inl NullPointer
      | Some search \<Rightarrow>
          (let prepared = prepare_string_for_compare ext (query_text (query search));
               terms = g_strsplit prepared;
               search1 = match_bookmarks ext terms (bookmarks self) search;
               mounts_to_check = mounts_to_check_of (volumes self)
           in case match_mounts ext terms mounts_to_check search1 of
                Inl f \<Rightarrow> Inl f
              | Inr search2 \<Rightarrow> Inr (self\<lparr>current_search := Some search2\<rparr>)))"

subsection \<open>Starting a search\<close>

definition single_character :: "string list \<Rightarrow> bool" where
  "single_character terms = (case terms of [t] \<Rightarrow> g_utf8_strlen t = 1 | _ \<Rightarrow> False)"

definition execute_search ::
  "externals \<Rightarrow> NautilusShellSearchProviderApp \<Rightarrow> GDBusMethodInvocation \<Rightarrow> string list
     \<Rightarrow> fault + NautilusShellSearchProviderApp" where
  "execute_search ext self invoc terms =
     (let self1 = (if current_search self \<noteq> None then cancel_current_search self else self) in
      if single_character terms then Inr (finish_current_search self1 invoc [])
      else
        (let terms_joined = g_strjoinv terms;
             home_uri = nautilus_get_home_directory_uri ext;
             q = \<lparr>query_text = terms_joined, query_location = home_uri\<rparr>;
             e = engines_created self1;
             pending_search = \<lparr>engine = e, query = q, hits = [], invocation = invoc\<rparr>;
             self2 = self1\<lparr>effects := effects self1 @ [EngineNew e, ApplicationHold],
                          engines_created := Suc e,
                          current_search := Some pending_search\<rparr>
         in case search_add_volumes_and_bookmarks ext self2 of
              Inl f \<Rightarrow> Inl f
            | Inr self3 \<Rightarrow>
                Inr (self3\<lparr>effects := effects self3 @ [EngineSetQuery e q, EngineStart e]\<rparr>)))"

definition handle_get_initial_result_set ::
  "externals \<Rightarrow> NautilusShellSearchProviderApp \<Rightarrow> GDBusMethodInvocation \<Rightarrow> string list
     \<Rightarrow> fault + NautilusShellSearchProviderApp" where
  "handle_get_initial_result_set ext self invoc terms = execute_search ext self invoc terms"

definition handle_get_subsearch_result_set ::
  "externals \<Rightarrow> NautilusShellSearchProviderApp \<Rightarrow> GDBusMethodInvocation \<Rightarrow> string list
     \<Rightarrow> string list \<Rightarrow> fault + NautilusShellSearchProviderApp" where
  "handle_get_subsearch_result_set ext self invoc previous_results terms =
     execute_search ext self invoc terms"

subsection \<open>Result metadata\<close>

text \<open>
  Modelled from the spec: \<^verbatim>\<open>nautilus_bookmark_list_item_with_uri\<close> is in
  \<^verbatim>\<open>nautilus-bookmark-list.c\<close>; the spec gives it as
  \<^verbatim>\<open>itemWithUri(uri) -> bookmark|none\<close>.
\<close>

definition nautilus_bookmark_list_item_with_uri ::
  "NautilusBookmark list \<Rightarrow> string \<Rightarrow> NautilusBookmark option" where
  "nautilus_bookmark_list_item_with_uri bs uri = find (\<lambda>b. bookmark_uri b = uri) bs"

definition get_display_name :: "NautilusShellSearchProviderApp \<Rightarrow> NautilusFile \<Rightarrow> string" where
  "get_display_name self file =
     (case nautilus_bookmark_list_item_with_uri (bookmarks self) (file_uri file) of
        Some bookmark \<Rightarrow> bookmark_name bookmark
      | None \<Rightarrow> file_display_name file)"

definition get_gicon :: "NautilusShellSearchProviderApp \<Rightarrow> NautilusFile \<Rightarrow> GIcon option" where
  "get_gicon self file =
     (case nautilus_bookmark_list_item_with_uri (bookmarks self) (file_uri file) of
        Some bookmark \<Rightarrow> bookmark_icon bookmark
      | None \<Rightarrow> file_gicon file)"

text \<open>The body of the loop of \<^verbatim>\<open>result_list_attributes_ready_cb\<close>: the record of one file.\<close>

definition file_meta :: "externals \<Rightarrow> NautilusShellSearchProviderApp \<Rightarrow> NautilusFile \<Rightarrow> meta" where
  "file_meta ext self file =
     (let uri = file_uri file;
          display_name = get_display_name self file;
          gicon = (case file_thumbnail_path file of
                     Some thumbnail_path \<Rightarrow> Some (FileIcon thumbnail_path)
                   | None \<Rightarrow> get_gicon self file)
      in [(''id'', VString uri), (''name'', VString display_name)] @
         (case gicon of
            Some icon \<Rightarrow> [(''gicon'', VString (g_icon_to_string ext icon))]
          | None \<Rightarrow> [(''icon-data'', VPixbuf (file_icon_pixbuf file))]))"

text \<open>
  \<^verbatim>\<open>result_metas_return_from_cache\<close> hands every looked-up record to the variant
  builder; a null record there is a fault.
\<close>

fun metas_from_cache :: "(string \<times> meta) list \<Rightarrow> string list \<Rightarrow> fault + meta list" where
  "metas_from_cache cache [] = Inr []"
| "metas_from_cache cache (uri # rest) =
     (case g_hash_table_lookup cache uri of
        None \<Rightarrow> Inl NullPointer
      | Some m \<Rightarrow>
          (case metas_from_cache cache rest of
             Inl f \<Rightarrow> Inl f
           | Inr ms \<Rightarrow> Inr (m # ms)))"

definition result_metas_return_from_cache ::
  "NautilusShellSearchProviderApp \<Rightarrow> ResultMetasData
     \<Rightarrow> fault + NautilusShellSearchProviderApp" where
  "result_metas_return_from_cache self data =
     (case metas_from_cache (metas_cache self) (rmd_uris data) of
        Inl f \<Rightarrow> Inl f
      | Inr ms \<Rightarrow> Inr (self\<lparr>effects := effects self @ [ReturnMetas (rmd_invocation data) ms]\<rparr>))"

fun attributes_ready_loop ::
  "externals \<Rightarrow> NautilusShellSearchProviderApp \<Rightarrow> NautilusFile list
     \<Rightarrow> NautilusShellSearchProviderApp" where
  "attributes_ready_loop ext self [] = self"
| "attributes_ready_loop ext self (file # l) =
     attributes_ready_loop ext
       (self\<lparr>metas_cache :=
                g_hash_table_insert (file_uri file) (file_meta ext self file) (metas_cache self)\<rparr>) l"

definition result_list_attributes_ready_cb ::
  "externals \<Rightarrow> NautilusShellSearchProviderApp \<Rightarrow> NautilusFile list \<Rightarrow> ResultMetasData
     \<Rightarrow> fault + NautilusShellSearchProviderApp" where
  "result_list_attributes_ready_cb ext self file_list data =
     result_metas_return_from_cache (attributes_ready_loop ext self file_list) data"

text \<open>The first loop of \<^verbatim>\<open>handle_get_result_metas\<close>, which prepends the file of every miss.\<close>

fun missing_files_loop ::
  "externals \<Rightarrow> (string \<times> meta) list \<Rightarrow> string list \<Rightarrow> NautilusFile list \<Rightarrow> NautilusFile list" where
  "missing_files_loop ext cache [] missing_files = missing_files"
| "missing_files_loop ext cache (uri # rest) missing_files =
     (if g_hash_table_lookup cache uri = None
      then missing_files_loop ext cache rest (nautilus_file_get_by_uri ext uri # missing_files)
      else missing_files_loop ext cache rest missing_files)"

definition missed_uris :: "(string \<times> meta) list \<Rightarrow> string list \<Rightarrow> string list" where
  "missed_uris cache results = filter (\<lambda>uri. g_hash_table_lookup cache uri = None) results"

text \<open>
  With no miss the reply is sent at once. Otherwise the handler registers
  \<^verbatim>\<open>result_list_attributes_ready_cb\<close> with the list of missing files and returns; the
  registration is the last effect it logs.
\<close>

definition handle_get_result_metas ::
  "externals \<Rightarrow> NautilusShellSearchProviderApp \<Rightarrow> GDBusMethodInvocation \<Rightarrow> string list
     \<Rightarrow> fault + NautilusShellSearchProviderApp" where
  "handle_get_result_metas ext self invoc results =
     (let missing_files = missing_files_loop ext (metas_cache self) results [];
          self1 = self\<lparr>effects := effects self @
                           map FileGetByUri (missed_uris (metas_cache self) results)\<rparr>;
          data = \<lparr>rmd_invocation = invoc, rmd_uris = results\<rparr>
      in if missing_files = [] then result_metas_return_from_cache self1 data
         else Inr (self1\<lparr>effects := effects self1 @ [CallWhenReady missing_files data]\<rparr>))"

subsection \<open>The provider as a transition system\<close>

text \<open>
  What reaches the provider: the three D-Bus methods, the four signals of the search
  engine, and the completion of a registered metadata request.
\<close>

datatype event =
    GetInitialResultSet GDBusMethodInvocation "string list"
  | GetSubsearchResultSet GDBusMethodInvocation "string list" "string list"
  | GetResultMetas GDBusMethodInvocation "string list"
  | HitsAdded "NautilusSearchHit list"
  | HitsSubtracted "NautilusSearchHit list"
  | Finished
  | Error string
  | AttributesReady "NautilusFile list" ResultMetasData

fun dispatch ::
  "externals \<Rightarrow> NautilusShellSearchProviderApp \<Rightarrow> event
     \<Rightarrow> fault + NautilusShellSearchProviderApp" where
  "dispatch ext self (GetInitialResultSet invoc terms) =
     handle_get_initial_result_set ext self invoc terms"
| "dispatch ext self (GetSubsearchResultSet invoc previous_results terms) =
     handle_get_subsearch_result_set ext self invoc previous_results terms"
| "dispatch ext self (GetResultMetas invoc results) =
     handle_get_result_metas ext self invoc results"
| "dispatch ext self (HitsAdded hs) = search_hits_added_cb ext self hs"
| "dispatch ext self (HitsSubtracted hs) = search_hits_subtracted_cb self hs"
| "dispatch ext self Finished = search_finished_cb ext self"
| "dispatch ext self (Error msg) = search_error_cb self msg"
| "dispatch ext self (AttributesReady file_list data) =
     result_list_attributes_ready_cb ext self file_list data"

fun run ::
  "externals \<Rightarrow> NautilusShellSearchProviderApp \<Rightarrow> event list
     \<Rightarrow> fault + NautilusShellSearchProviderApp" where
  "run ext self [] = Inr self"
| "run ext self (ev # evs) =
     (case dispatch ext self ev of
        Inl f \<Rightarrow> Inl f
      | Inr self' \<Rightarrow> run ext self' evs)"

text \<open>\<^verbatim>\<open>nautilus_shell_search_provider_app_init\<close>: no search, an empty cache.\<close>

definition nautilus_shell_search_provider_app_init ::
  "NautilusBookmark list \<Rightarrow> GVolumeMonitor \<Rightarrow> NautilusShellSearchProviderApp" where
  "nautilus_shell_search_provider_app_init bs monitor =
     \<lparr>current_search = None, metas_cache = [], bookmarks = bs, volumes = monitor,
      effects = [], engines_created = 0\<rparr>"

text \<open>
  Two readings of a log of effects, each folded over the log from its start: the engines
  created and not yet released (one per search that has not been freed), and the engines
  started and neither stopped nor released.
\<close>

fun live_effect :: "effect \<Rightarrow> NautilusSearchEngine list \<Rightarrow> NautilusSearchEngine list" where
  "live_effect (EngineNew e) es = es @ [e]"
| "live_effect (EngineUnref e) es = removeAll e es"
| "live_effect x es = es"

definition live_engines :: "effect list \<Rightarrow> NautilusSearchEngine list" where
  "live_engines effs = fold live_effect effs []"

fun running_effect :: "effect \<Rightarrow> NautilusSearchEngine list \<Rightarrow> NautilusSearchEngine list" where
  "running_effect (EngineStart e) es = es @ [e]"
| "running_effect (EngineStop e) es = removeAll e es"
| "running_effect (EngineUnref e) es = removeAll e es"
| "running_effect x es = es"

definition running_engines :: "effect list \<Rightarrow> NautilusSearchEngine list" where
  "running_engines effs = fold running_effect effs []"

text \<open>
  The hit-set in the words of the spec: a map from identifier to hit in which a later hit
  for an identifier replaces the earlier one and a subtracted hit removes the entry.
\<close>

fun hit_set_spec ::
  "externals \<Rightarrow> NautilusQuery \<Rightarrow> (string \<rightharpoonup> NautilusSearchHit) \<Rightarrow> event list
     \<Rightarrow> (string \<rightharpoonup> NautilusSearchHit)" where
  "hit_set_spec ext q m [] = m"
| "hit_set_spec ext q m (HitsAdded hs # evs) =
     hit_set_spec ext q
       (fold (\<lambda>h m'. m'(hit_uri h \<mapsto> nautilus_search_hit_compute_scores ext h q)) hs m) evs"
| "hit_set_spec ext q m (HitsSubtracted hs # evs) =
     hit_set_spec ext q (fold (\<lambda>h m'. m'(hit_uri h := None)) hs m) evs"
| "hit_set_spec ext q m (ev # evs) = hit_set_spec ext q m evs"

text \<open>Whether some hits-subtracted notification of a sequence names a URI.\<close>

fun uri_subtracted :: "string \<Rightarrow> event list \<Rightarrow> bool" where
  "uri_subtracted u [] = False"
| "uri_subtracted u (HitsSubtracted hs # evs) =
     (u \<in> set (map hit_uri hs) \<or> uri_subtracted u evs)"
| "uri_subtracted u (ev # evs) = uri_subtracted u evs"


fun is_hits_notification :: "event \<Rightarrow> bool" where
  "is_hits_notification (HitsAdded hs) = True"
| "is_hits_notification (HitsSubtracted hs) = True"
| "is_hits_notification ev = False"

text \<open>
  The terms in the words of the spec, which splits the query text on whitespace: the
  maximal runs of characters that are not whitespace (space, tab, line feed, vertical
  tab, form feed, carriage return).
\<close>

definition is_whitespace :: "char \<Rightarrow> bool" where
  "is_whitespace c = (c \<in> set [CHR '' '', CHR 0x09, CHR 0x0A, CHR 0x0B, CHR 0x0C, CHR 0x0D])"

fun spec_whitespace_terms :: "string \<Rightarrow> string list" where
  "spec_whitespace_terms [] = []"
| "spec_whitespace_terms (c # cs) =
     (if is_whitespace c then spec_whitespace_terms cs
      else (case cs of
              [] \<Rightarrow> [[c]]
            | d # ds \<Rightarrow>
                (if is_whitespace d then [c] # spec_whitespace_terms cs
                 else (case spec_whitespace_terms cs of
                         [] \<Rightarrow> [[c]]
                       | t # ts \<Rightarrow> (c # t) # ts))))"

text \<open>An instance of the collaborators for plain ASCII text, used to evaluate the model.\<close>

definition ascii_tolower :: "char \<Rightarrow> char" where
  "ascii_tolower c =
     (case map_of (zip ''ABCDEFGHIJKLMNOPQRSTUVWXYZ'' ''abcdefghijklmnopqrstuvwxyz'') c of
        Some l \<Rightarrow> l
      | None \<Rightarrow> c)"

definition ascii_externals :: externals where
  "ascii_externals =
     \<lparr>g_utf8_normalize_nfd = (\<lambda>s. s),
      g_utf8_strdown = map ascii_tolower,
      search_hit_scores = (\<lambda>hit q. hit_fts_rank hit),
      hash_table_order = (\<lambda>xs. xs),
      nautilus_get_home_directory_uri = ''file:///home/user'',
      nautilus_file_get_by_uri =
        (\<lambda>uri. \<lparr>file_uri = uri, file_display_name = uri, file_thumbnail_path = None,
                file_gicon = Some (ThemedIcon [''text-x-generic'']),
                file_icon_pixbuf =
                  \<lparr>pixbuf_width = 0, pixbuf_height = 0, pixbuf_rowstride = 0,
                   pixbuf_has_alpha = False, pixbuf_bits_per_sample = 8,
                   pixbuf_n_channels = 3, pixbuf_pixels = []\<rparr>\<rparr>),
      g_icon_to_string = (\<lambda>icon. case icon of ThemedIcon names \<Rightarrow> concat names | FileIcon path \<Rightarrow> path)\<rparr>"

definition no_volumes :: GVolumeMonitor where
  "no_volumes = \<lparr>connected_drives = [], monitor_volumes = [], monitor_mounts = []\<rparr>"

text \<open>A running search that has already collected one hit.\<close>

definition example_search :: PendingSearch where
  "example_search =
     \<lparr>engine = 0,
      query = \<lparr>query_text = ''notes'', query_location = ''file:///home/user''\<rparr>,
      hits = [(''file:///home/user/notes.txt'',
               \<lparr>hit_uri = ''file:///home/user/notes.txt'', hit_fts_rank = 2, hit_relevance = 2\<rparr>)],
      invocation = 7\<rparr>"

definition example_app :: NautilusShellSearchProviderApp where
  "example_app =
     \<lparr>current_search = Some example_search, metas_cache = [], bookmarks = [],
      volumes = no_volumes,
      effects = [EngineNew 0, ApplicationHold, EngineSetQuery 0 (query example_search),
                 EngineStart 0],
      engines_created = 1\<rparr>"

text \<open>A volume without a drive that is not mounted.\<close>

definition unmounted_volume_monitor :: GVolumeMonitor where
  "unmounted_volume_monitor =
     \<lparr>connected_drives = [],
      monitor_volumes = [\<lparr>volume_drive = None, volume_mount = None\<rparr>],
      monitor_mounts = []\<rparr>"

text \<open>A connected drive with one volume, whose mount is flagged as shadowed.\<close>

definition shadowed_usb :: GMount where
  "shadowed_usb =
     \<lparr>mount_name = ''usb'', mount_is_shadowed = True, mount_volume = Some 0,
      mount_default_location_uri = ''file:///media/usb''\<rparr>"

definition shadowed_volume_monitor :: GVolumeMonitor where
  "shadowed_volume_monitor =
     \<lparr>connected_drives =
        [\<lparr>drive_volumes = [\<lparr>volume_drive = Some 0, volume_mount = Some shadowed_usb\<rparr>]\<rparr>],
      monitor_volumes = [\<lparr>volume_drive = Some 0, volume_mount = Some shadowed_usb\<rparr>],
      monitor_mounts = [shadowed_usb]\<rparr>"

text \<open>Three notifications: two hits, a second hit for the first URI, the second hit withdrawn.\<close>

definition example_notifications :: "event list" where
  "example_notifications =
     [HitsAdded [\<lparr>hit_uri = ''file:///a'', hit_fts_rank = 1, hit_relevance = 0\<rparr>,
                 \<lparr>hit_uri = ''file:///b'', hit_fts_rank = 3, hit_relevance = 0\<rparr>],
      HitsAdded [\<lparr>hit_uri = ''file:///a'', hit_fts_rank = 5, hit_relevance = 0\<rparr>],
      HitsSubtracted [\<lparr>hit_uri = ''file:///b'', hit_fts_rank = 3, hit_relevance = 0\<rparr>]]"

text \<open>A provider with one bookmark and no drives, volumes or mounts.\<close>

definition report_bookmark_app :: NautilusShellSearchProviderApp where
  "report_bookmark_app =
     nautilus_shell_search_provider_app_init
       [\<lparr>bookmark_name = ''2023 Report Draft'', bookmark_uri = ''file:///a'',
         bookmark_icon = None\<rparr>] no_volumes"

text \<open>The record that the ASCII collaborators give for a URI that is not bookmarked.\<close>

definition example_meta :: "string \<Rightarrow> meta" where
  "example_meta uri =
     [(''id'', VString uri), (''name'', VString uri), (''gicon'', VString ''text-x-generic'')]"

text \<open>A provider whose one bookmark is named \<^verbatim>\<open>b a\<close>.\<close>

definition b_a_bookmark_app :: NautilusShellSearchProviderApp where
  "b_a_bookmark_app =
     nautilus_shell_search_provider_app_init
       [\<lparr>bookmark_name = ''b a'', bookmark_uri = ''file:///b_a'', bookmark_icon = None\<rparr>]
       no_volumes"

text \<open>A provider whose one bookmark is named \<^verbatim>\<open>a\<close>.\<close>

definition a_bookmark_app :: NautilusShellSearchProviderApp where
  "a_bookmark_app =
     nautilus_shell_search_provider_app_init
       [\<lparr>bookmark_name = ''a'', bookmark_uri = ''file:///a'', bookmark_icon = None\<rparr>]
       no_volumes"

text \<open>
  A file source that reports the canonical form of a URI, without a trailing slash, as
  GIO does for local files: the file made for \<^verbatim>\<open>file:///tmp/\<close> reports \<^verbatim>\<open>file:///tmp\<close>.
\<close>

definition canonical_uri :: "string \<Rightarrow> string" where
  "canonical_uri uri = (if uri \<noteq> [] \<and> last uri = CHR ''/'' then butlast uri else uri)"

definition canonical_externals :: externals where
  "canonical_externals =
     ascii_externals
       \<lparr>nautilus_file_get_by_uri :=
          (\<lambda>uri. nautilus_file_get_by_uri ascii_externals (canonical_uri uri))\<rparr>"

subsection \<open>Invariants\<close>

text \<open>A hit table is keyed by the URI of each hit and has no key twice.\<close>

definition table_ok :: "(string \<times> NautilusSearchHit) list \<Rightarrow> bool" where
  "table_ok h = (distinct (map fst h) \<and> list_all (\<lambda>kv. hit_uri (snd kv) = fst kv) h)"

definition hits_ok :: "NautilusShellSearchProviderApp \<Rightarrow> bool" where
  "hits_ok self = (case current_search self of None \<Rightarrow> True | Some search \<Rightarrow> table_ok (hits search))"

text \<open>A cached record carries the key it is stored under as its \<^verbatim>\<open>id\<close>.\<close>

definition cache_ok :: "(string \<times> meta) list \<Rightarrow> bool" where
  "cache_ok cache = list_all (\<lambda>km. map_of (snd km) ''id'' = Some (VString (fst km))) cache"

text \<open>
  Reading a log from a given list of engines: at no point of the log are there two.
\<close>

fun bounded_from ::
  "(effect \<Rightarrow> NautilusSearchEngine list \<Rightarrow> NautilusSearchEngine list)
     \<Rightarrow> NautilusSearchEngine list \<Rightarrow> effect list \<Rightarrow> bool" where
  "bounded_from f es [] = (length es \<le> 1)"
| "bounded_from f es (x # xs) = (length es \<le> 1 \<and> bounded_from f (f x es) xs)"

definition cur_engines :: "NautilusShellSearchProviderApp \<Rightarrow> NautilusSearchEngine list" where
  "cur_engines self = (case current_search self of None \<Rightarrow> [] | Some search \<Rightarrow> [engine search])"

definition engines_inv :: "NautilusShellSearchProviderApp \<Rightarrow> bool" where
  "engines_inv self =
     (live_engines (effects self) = cur_engines self \<and>
      running_engines (effects self) = cur_engines self \<and>
      bounded_from live_effect [] (effects self) \<and>
      bounded_from running_effect [] (effects self))"

text \<open>
  A metadata request as the metadata source completes it: the request, followed, when it
  registered a callback, by the one call of the callback with the files and the data it
  was registered with.
\<close>

definition get_result_metas_events ::
  "externals \<Rightarrow> NautilusShellSearchProviderApp \<Rightarrow> GDBusMethodInvocation \<Rightarrow> string list
     \<Rightarrow> event list" where
  "get_result_metas_events ext self invoc results =
     (let missing_files = missing_files_loop ext (metas_cache self) results [] in
      if missing_files = [] then [GetResultMetas invoc results]
      else [GetResultMetas invoc results,
            AttributesReady missing_files \<lparr>rmd_invocation = invoc, rmd_uris = results\<rparr>])"

section \<open>Properties\<close>

subsection \<open>Finishing and cancelling\<close>

lemma finish_current_search_effects:
  "effects (finish_current_search self invoc result) =
     effects self @ ReturnValue invoc result #
       (case current_search self of None \<Rightarrow> []
        | Some search \<Rightarrow> [ApplicationRelease, EngineUnref (engine search)])"
  by (simp add: finish_current_search_def pending_search_free_def Let_def split: option.splits)

lemma finish_current_search_fields:
  "current_search (finish_current_search self invoc result) = None"
  "metas_cache (finish_current_search self invoc result) = metas_cache self"
  "bookmarks (finish_current_search self invoc result) = bookmarks self"
  "volumes (finish_current_search self invoc result) = volumes self"
  "engines_created (finish_current_search self invoc result) = engines_created self"
  by (simp_all add: finish_current_search_def Let_def split: option.splits)

lemma cancel_current_search_effects:
  "effects (cancel_current_search self) =
     effects self @
       (case current_search self of None \<Rightarrow> []
        | Some search \<Rightarrow> [EngineStop (engine search), ReturnValue (invocation search) [],
                          ApplicationRelease, EngineUnref (engine search)])"
  by (simp add: cancel_current_search_def finish_current_search_effects split: option.splits)

lemma cancel_current_search_fields:
  "current_search (cancel_current_search self) = None"
  "metas_cache (cancel_current_search self) = metas_cache self"
  "bookmarks (cancel_current_search self) = bookmarks self"
  "volumes (cancel_current_search self) = volumes self"
  "engines_created (cancel_current_search self) = engines_created self"
  by (simp_all add: cancel_current_search_def finish_current_search_fields split: option.splits)

lemma add_found_hit_fields:
  "engine (add_found_hit ext uri search) = engine search"
  "query (add_found_hit ext uri search) = query search"
  "invocation (add_found_hit ext uri search) = invocation search"
  by (simp_all add: add_found_hit_def Let_def)

lemma match_bookmarks_fields:
  "engine (match_bookmarks ext terms bs search) = engine search \<and>
   query (match_bookmarks ext terms bs search) = query search \<and>
   invocation (match_bookmarks ext terms bs search) = invocation search"
  by (induction bs arbitrary: search) (simp_all add: Let_def add_found_hit_fields)

lemma match_mounts_fields:
  "match_mounts ext terms ms search = Inr search' \<Longrightarrow>
   engine search' = engine search \<and> query search' = query search \<and>
   invocation search' = invocation search"
  by (induction ext terms ms search rule: match_mounts.induct)
     (auto simp: Let_def add_found_hit_fields split: if_splits)

lemma match_mounts_fault:
  "(match_mounts ext terms ms search = Inl NullPointer) = (None \<in> set ms)"
  by (induction ext terms ms search rule: match_mounts.induct) (auto simp: Let_def)

lemma match_mounts_fault_iff:
  "(\<exists>f. match_mounts ext terms ms search = Inl f) = (None \<in> set ms)"
  by (induction ext terms ms search rule: match_mounts.induct) (auto simp: Let_def)

lemma scan_Inr:
  assumes "search_add_volumes_and_bookmarks ext self = Inr self'"
  shows "\<exists>search search'. current_search self = Some search \<and> current_search self' = Some search' \<and>
           engine search' = engine search \<and> query search' = query search \<and>
           invocation search' = invocation search \<and>
           self' = self\<lparr>current_search := Some search'\<rparr>"
  using assms
  by (auto simp: search_add_volumes_and_bookmarks_def Let_def match_bookmarks_fields
           split: option.splits sum.splits dest!: match_mounts_fields)

lemma single_character_iff: "single_character terms = (\<exists>t. terms = [t] \<and> g_utf8_strlen t = 1)"
  by (auto simp: single_character_def split: list.splits)

subsection \<open>A lone single-character term\<close>

text \<open>
  Claim C3. When the term list is one term of exactly one character (as
  \<^verbatim>\<open>g_utf8_strlen\<close> counts), \<^verbatim>\<open>GetInitialResultSet\<close> answers the request at once with the
  empty identifier list. Nothing is created and no engine is started: after the effects
  of cancelling a search that was still running, the reply is the only effect, no search
  is current and the count of engines created has not moved.
\<close>

theorem C3_single_character_rejected:
  assumes "g_utf8_strlen t = 1"
  shows "\<exists>self'. handle_get_initial_result_set ext self invoc [t] = Inr self' \<and>
           current_search self' = None \<and>
           engines_created self' = engines_created self \<and>
           effects self' = effects self @
             (case current_search self of None \<Rightarrow> []
              | Some old \<Rightarrow> [EngineStop (engine old), ReturnValue (invocation old) [],
                             ApplicationRelease, EngineUnref (engine old)]) @
             [ReturnValue invoc []]"
  using assms
  by (auto simp: handle_get_initial_result_set_def execute_search_def single_character_def
        finish_current_search_effects finish_current_search_fields
        cancel_current_search_effects cancel_current_search_fields split: option.splits)

theorem C3_single_character_rejected_witness:
  "g_utf8_strlen [CHR 0xC3, CHR 0xA9] = 1 \<and>
   (\<exists>self'. handle_get_initial_result_set ascii_externals example_app 8 [[CHR 0xC3, CHR 0xA9]] = Inr self' \<and>
      current_search self' = None \<and> engines_created self' = 1 \<and>
      effects self' = [EngineNew 0, ApplicationHold, EngineSetQuery 0 (query example_search),
                 EngineStart 0, EngineStop 0, ReturnValue 7 [], ApplicationRelease, EngineUnref 0,
                 ReturnValue 8 []])"
proof -
  have h: "g_utf8_strlen [CHR 0xC3, CHR 0xA9] = 1" by (simp add: g_utf8_skip_def)
  show ?thesis
    using h C3_single_character_rejected [OF h, of ascii_externals example_app 8]
    by (simp add: example_app_def example_search_def)
qed

subsection \<open>Errors and cancellation\<close>

text \<open>
  Claim C4. When the engine signals an error during a search, or the running search is
  cancelled or superseded, the request of that search is answered with the empty
  identifier list, whatever hits the table holds; the answer is a return value, and
  \<^verbatim>\<open>ReturnError\<close> is not among the effects.
\<close>

theorem C4_error_and_cancel_reply_empty:
  assumes "current_search self = Some search"
  shows "search_error_cb self error_message =
           Inr (finish_current_search self (invocation search) []) \<and>
         effects (finish_current_search self (invocation search) []) =
           effects self @ [ReturnValue (invocation search) [], ApplicationRelease,
                           EngineUnref (engine search)] \<and>
         effects (cancel_current_search self) =
           effects self @ [EngineStop (engine search), ReturnValue (invocation search) [],
                           ApplicationRelease, EngineUnref (engine search)] \<and>
         current_search (finish_current_search self (invocation search) []) = None \<and>
         current_search (cancel_current_search self) = None"
  using assms
  by (simp add: search_error_cb_def finish_current_search_effects cancel_current_search_effects
        finish_current_search_fields cancel_current_search_fields)

theorem C4_error_and_cancel_reply_empty_witness:
  "current_search example_app = Some example_search \<and>
   hits example_search \<noteq> [] \<and>
   search_error_cb example_app ''engine failed'' =
     Inr (finish_current_search example_app 7 []) \<and>
   effects (finish_current_search example_app 7 []) =
     [EngineNew 0, ApplicationHold, EngineSetQuery 0 (query example_search), EngineStart 0,
      ReturnValue 7 [], ApplicationRelease, EngineUnref 0] \<and>
   effects (cancel_current_search example_app) =
     [EngineNew 0, ApplicationHold, EngineSetQuery 0 (query example_search), EngineStart 0,
      EngineStop 0, ReturnValue 7 [], ApplicationRelease, EngineUnref 0]"
proof -
  have h: "current_search example_app = Some example_search" by (simp add: example_app_def)
  show ?thesis
    using h C4_error_and_cancel_reply_empty [OF h, of "''engine failed''"]
    by (simp add: example_app_def example_search_def)
qed

subsection \<open>Subsearch\<close>

text \<open>
  Claim C9. \<^verbatim>\<open>GetSubsearchResultSet\<close> does what \<^verbatim>\<open>GetInitialResultSet\<close> does with the
  new terms, on every state and for every list of previous results: the new state, its
  effects and a fault are the same.
\<close>

theorem C9_subsearch_is_initial_search:
  "handle_get_subsearch_result_set ext self invoc previous_results terms =
     handle_get_initial_result_set ext self invoc terms"
  by (simp add: handle_get_subsearch_result_set_def handle_get_initial_result_set_def)

subsection \<open>The mounts that are checked\<close>

lemma check_drive_volumes_set:
  "set (check_drive_volumes vs acc) = volume_mount ` set vs \<union> set acc"
  by (induction vs arbitrary: acc) auto

lemma check_connected_drives_set:
  "set (check_connected_drives ds acc) =
     (\<Union>d \<in> set ds. volume_mount ` set (drive_volumes d)) \<union> set acc"
  by (induction ds arbitrary: acc) (auto simp: check_drive_volumes_set)

lemma check_volumes_without_drive_set:
  "set (check_volumes_without_drive vs acc) =
     volume_mount ` {v \<in> set vs. volume_drive v = None} \<union> set acc"
  by (induction vs arbitrary: acc) auto

lemma check_mounts_without_volume_set:
  "set (check_mounts_without_volume ms acc) =
     Some ` {m \<in> set ms. \<not> mount_is_shadowed m \<and> mount_volume m = None} \<union> set acc"
  by (induction ms arbitrary: acc) auto

lemma mounts_to_check_of_set:
  "set (mounts_to_check_of monitor) =
     (\<Union>d \<in> set (connected_drives monitor). volume_mount ` set (drive_volumes d)) \<union>
     volume_mount ` {v \<in> set (monitor_volumes monitor). volume_drive v = None} \<union>
     Some ` {m \<in> set (monitor_mounts monitor). \<not> mount_is_shadowed m \<and> mount_volume m = None}"
  by (auto simp: mounts_to_check_of_def check_mounts_without_volume_set
        check_volumes_without_drive_set check_connected_drives_set)

lemma sum_case_Inl_iff:
  "((case x of Inl f \<Rightarrow> Inl f | Inr s \<Rightarrow> Inr (g s)) = Inl e) = (x = Inl e)"
  by (cases x) auto

lemma scan_fault_iff:
  "current_search self = Some search \<Longrightarrow>
   (search_add_volumes_and_bookmarks ext self = Inl NullPointer) =
     (None \<in> set (mounts_to_check_of (volumes self)))"
  by (simp add: search_add_volumes_and_bookmarks_def Let_def sum_case_Inl_iff match_mounts_fault)

text \<open>
  Claim C10. The scan puts the mount of every volume of a connected drive and of every
  volume without a drive on the list of mounts to check, mounted or not. The list has a
  null element exactly when one of these volumes has no mount, and exactly then the scan
  faults in the matching loop, which asks the null element for its name.
\<close>

theorem C10_unmounted_volume_faults:
  assumes "current_search self = Some search"
  shows "(None \<in> set (mounts_to_check_of (volumes self))) =
           ((\<exists>d \<in> set (connected_drives (volumes self)).
               \<exists>v \<in> set (drive_volumes d). volume_mount v = None) \<or>
            (\<exists>v \<in> set (monitor_volumes (volumes self)).
               volume_drive v = None \<and> volume_mount v = None)) \<and>
         (search_add_volumes_and_bookmarks ext self = Inl NullPointer) =
           (None \<in> set (mounts_to_check_of (volumes self)))"
proof -
  have "(None \<in> set (mounts_to_check_of (volumes self))) =
           ((\<exists>d \<in> set (connected_drives (volumes self)).
               \<exists>v \<in> set (drive_volumes d). volume_mount v = None) \<or>
            (\<exists>v \<in> set (monitor_volumes (volumes self)).
               volume_drive v = None \<and> volume_mount v = None))"
    unfolding mounts_to_check_of_set by (auto simp: image_iff) metis+
  then show ?thesis using scan_fault_iff[OF assms] by simp
qed

theorem C10_unmounted_volume_faults_witness:
  "search_add_volumes_and_bookmarks ascii_externals
     (example_app\<lparr>volumes := unmounted_volume_monitor\<rparr>) = Inl NullPointer"
proof -
  have h: "current_search (example_app\<lparr>volumes := unmounted_volume_monitor\<rparr>) = Some example_search"
    by (simp add: example_app_def)
  show ?thesis
    using C10_unmounted_volume_faults [OF h, of ascii_externals]
    by (simp add: unmounted_volume_monitor_def)
qed

text \<open>
  Claim C6, as the code has it. Only the third source leaves shadowed mounts out: the
  list of mounts to check holds the mount of every volume of a connected drive and of
  every volume without a drive, shadowed or not, and of the mounts of the monitor those
  that are not shadowed and have no volume.
\<close>

theorem C6_shadowed_only_third_source:
  "set (mounts_to_check_of monitor) =
     (\<Union>d \<in> set (connected_drives monitor). volume_mount ` set (drive_volumes d)) \<union>
     volume_mount ` {v \<in> set (monitor_volumes monitor). volume_drive v = None} \<union>
     Some ` {m \<in> set (monitor_mounts monitor). \<not> mount_is_shadowed m \<and> mount_volume m = None}"
  by (rule mounts_to_check_of_set)

theorem C6_shadowed_only_third_source_witness:
  "set (mounts_to_check_of shadowed_volume_monitor) = {Some shadowed_usb}"
  using C6_shadowed_only_third_source [of shadowed_volume_monitor]
  by (auto simp: shadowed_volume_monitor_def shadowed_usb_def)

text \<open>
  A shadowed mount that is the mount of a volume of a connected drive is matched by its
  name and its location is in the reply.
\<close>

theorem C6_shadowed_mount_matched:
  "mount_is_shadowed shadowed_usb \<and>
   map_sum id effects
     (run ascii_externals
        (nautilus_shell_search_provider_app_init [] shadowed_volume_monitor)
        [GetInitialResultSet 1 [''usb''], Finished]) =
   Inr [EngineNew 0, ApplicationHold,
        EngineSetQuery 0 \<lparr>query_text = ''usb'', query_location = ''file:///home/user''\<rparr>,
        EngineStart 0, ReturnValue 1 [''file:///media/usb''], ApplicationRelease, EngineUnref 0]"
  by (simp add: shadowed_usb_def shadowed_volume_monitor_def
        nautilus_shell_search_provider_app_init_def handle_get_initial_result_set_def
        execute_search_def single_character_def g_utf8_skip_def
        search_add_volumes_and_bookmarks_def mounts_to_check_of_def
        prepare_string_for_compare_def ascii_externals_def ascii_tolower_def g_strsplit_def
        add_found_hit_def nautilus_search_hit_new_def nautilus_search_hit_compute_scores_def
        g_hash_table_replace_def search_finished_cb_def g_hash_table_get_values_def
        g_list_sort_def finish_current_search_def pending_search_free_def Let_def)

subsection \<open>The hit table\<close>

lemma g_list_insert_sorted_mset: "mset (g_list_insert_sorted cmp x xs) = add_mset x (mset xs)"
  by (induction xs) auto

lemma g_list_sort_mset: "mset (g_list_sort cmp xs) = mset xs"
  by (induction xs) (auto simp: g_list_sort_def g_list_insert_sorted_mset)

lemma g_list_insert_sorted_set: "set (g_list_insert_sorted cmp x xs) = insert x (set xs)"
  by (induction xs) auto

lemma insert_sorted_relevance:
  "sorted_wrt (\<lambda>a b. hit_relevance b \<le> hit_relevance a) xs \<Longrightarrow>
   sorted_wrt (\<lambda>a b. hit_relevance b \<le> hit_relevance a)
     (g_list_insert_sorted search_hit_compare_relevance x xs)"
  by (induction xs) (auto simp: search_hit_compare_relevance_def g_list_insert_sorted_set split: if_splits)

lemma g_list_sort_relevance:
  "sorted_wrt (\<lambda>a b. hit_relevance b \<le> hit_relevance a) (g_list_sort search_hit_compare_relevance xs)"
  by (induction xs) (auto simp: g_list_sort_def insert_sorted_relevance)

lemma update_all:
  "list_all P h \<Longrightarrow> P (k, v) \<Longrightarrow> list_all P (AList.update k v h)"
  by (induction h) auto

lemma delete_all: "list_all P h \<Longrightarrow> list_all P (AList.delete k h)"
  by (induction h) auto

lemma table_ok_replace:
  "table_ok h \<Longrightarrow> hit_uri v = k \<Longrightarrow> table_ok (g_hash_table_replace k v h)"
  by (simp add: table_ok_def g_hash_table_replace_def distinct_update update_all)

lemma table_ok_remove: "table_ok h \<Longrightarrow> table_ok (g_hash_table_remove k h)"
  by (simp add: table_ok_def g_hash_table_remove_def distinct_delete delete_all)

lemma compute_scores_uri [simp]:
  "hit_uri (nautilus_search_hit_compute_scores ext hit q) = hit_uri hit"
  by (simp add: nautilus_search_hit_compute_scores_def)

lemma hits_added_loop_fields:
  "engine (hits_added_loop ext search hs) = engine search \<and>
   query (hits_added_loop ext search hs) = query search \<and>
   invocation (hits_added_loop ext search hs) = invocation search"
  by (induction hs arbitrary: search) (simp_all add: Let_def)

lemma hits_added_loop_map_of:
  "map_of (hits (hits_added_loop ext search hs)) =
     fold (\<lambda>h m'. m'(hit_uri h \<mapsto> nautilus_search_hit_compute_scores ext h (query search))) hs
       (map_of (hits search))"
  by (induction hs arbitrary: search)
     (simp_all add: Let_def g_hash_table_replace_def update_conv')

lemma hits_added_loop_ok:
  "table_ok (hits search) \<Longrightarrow> table_ok (hits (hits_added_loop ext search hs))"
  by (induction hs arbitrary: search) (simp_all add: Let_def table_ok_replace)

lemma hits_subtracted_loop_fields:
  "engine (hits_subtracted_loop search hs) = engine search \<and>
   query (hits_subtracted_loop search hs) = query search \<and>
   invocation (hits_subtracted_loop search hs) = invocation search"
  by (induction hs arbitrary: search) simp_all

lemma hits_subtracted_loop_map_of:
  "map_of (hits (hits_subtracted_loop search hs)) =
     fold (\<lambda>h m'. m'(hit_uri h := None)) hs (map_of (hits search))"
  by (induction hs arbitrary: search) (simp_all add: g_hash_table_remove_def delete_conv')

lemma hits_subtracted_loop_ok:
  "table_ok (hits search) \<Longrightarrow> table_ok (hits (hits_subtracted_loop search hs))"
  by (induction hs arbitrary: search) (simp_all add: table_ok_remove)

lemma run_append:
  "run ext self (evs @ evs') =
     (case run ext self evs of Inl f \<Rightarrow> Inl f | Inr self' \<Rightarrow> run ext self' evs')"
  by (induction evs arbitrary: self) (simp_all split: sum.splits)

lemma run_notifications:
  assumes "current_search self = Some search" and "list_all is_hits_notification evs"
  shows "\<exists>search'. run ext self evs = Inr (self\<lparr>current_search := Some search'\<rparr>) \<and>
           engine search' = engine search \<and> query search' = query search \<and>
           invocation search' = invocation search \<and>
           map_of (hits search') = hit_set_spec ext (query search) (map_of (hits search)) evs \<and>
           (table_ok (hits search) \<longrightarrow> table_ok (hits search'))"
  using assms
proof (induction evs arbitrary: self search)
  case Nil
  then show ?case by (intro exI[of _ search]) (cases self, simp)
next
  case (Cons ev evs)
  show ?case
  proof (cases ev)
    case (HitsAdded hs)
    let ?s = "hits_added_loop ext search hs"
    let ?self = "self\<lparr>current_search := Some ?s\<rparr>"
    have cur: "current_search ?self = Some ?s" by simp
    have rest: "list_all is_hits_notification evs" using Cons.prems by simp
    from Cons.IH[OF cur rest] obtain search' where
      r: "run ext ?self evs = Inr (?self\<lparr>current_search := Some search'\<rparr>)"
      and f: "engine search' = engine ?s" "query search' = query ?s" "invocation search' = invocation ?s"
      and m: "map_of (hits search') = hit_set_spec ext (query ?s) (map_of (hits ?s)) evs"
      and ok: "table_ok (hits ?s) \<longrightarrow> table_ok (hits search')"
      by blast
    show ?thesis
      using r f m ok Cons.prems(1) HitsAdded
      by (auto simp: search_hits_added_cb_def hits_added_loop_fields hits_added_loop_map_of
            hits_added_loop_ok intro!: exI[of _ search'])
  next
    case (HitsSubtracted hs)
    let ?s = "hits_subtracted_loop search hs"
    let ?self = "self\<lparr>current_search := Some ?s\<rparr>"
    have cur: "current_search ?self = Some ?s" by simp
    have rest: "list_all is_hits_notification evs" using Cons.prems by simp
    from Cons.IH[OF cur rest] obtain search' where
      r: "run ext ?self evs = Inr (?self\<lparr>current_search := Some search'\<rparr>)"
      and f: "engine search' = engine ?s" "query search' = query ?s" "invocation search' = invocation ?s"
      and m: "map_of (hits search') = hit_set_spec ext (query ?s) (map_of (hits ?s)) evs"
      and ok: "table_ok (hits ?s) \<longrightarrow> table_ok (hits search')"
      by blast
    show ?thesis
      using r f m ok Cons.prems(1) HitsSubtracted
      by (auto simp: search_hits_subtracted_cb_def hits_subtracted_loop_fields
            hits_subtracted_loop_map_of hits_subtracted_loop_ok intro!: exI[of _ search'])
  qed (use Cons.prems in simp_all)
qed

lemma table_ok_values:
  assumes "table_ok h" and "mset hs = mset (map snd h)"
  shows "set (map hit_uri hs) = dom (map_of h)"
    and "distinct (map hit_uri hs)"
    and "list_all (\<lambda>x. map_of h (hit_uri x) = Some x) hs"
proof -
  have keys: "map hit_uri (map snd h) = map fst h"
    using assms(1) by (induction h) (auto simp: table_ok_def)
  have "mset (map hit_uri hs) = mset (map fst h)"
    using assms(2) keys by (metis mset_map)
  then show "set (map hit_uri hs) = dom (map_of h)"
    by (metis dom_map_of_conv_image_fst set_map set_mset_mset)
  show "distinct (map hit_uri hs)"
    using \<open>mset (map hit_uri hs) = mset (map fst h)\<close> assms(1)
    by (metis table_ok_def mset_eq_imp_distinct_iff)
  have "\<forall>x \<in> set (map snd h). map_of h (hit_uri x) = Some x"
    using assms(1) by (auto simp: table_ok_def list_all_iff)
  moreover have "set hs = set (map snd h)" using assms(2) by (metis set_mset_mset)
  ultimately show "list_all (\<lambda>x. map_of h (hit_uri x) = Some x) hs"
    by (simp add: list_all_iff)
qed

lemma add_found_hit_ok:
  "table_ok (hits search) \<Longrightarrow> table_ok (hits (add_found_hit ext uri search))"
  by (simp add: add_found_hit_def Let_def table_ok_replace nautilus_search_hit_new_def)

lemma match_bookmarks_ok:
  "table_ok (hits search) \<Longrightarrow> table_ok (hits (match_bookmarks ext terms bs search))"
  by (induction bs arbitrary: search) (simp_all add: Let_def add_found_hit_ok)

lemma match_mounts_ok:
  "match_mounts ext terms ms search = Inr search' \<Longrightarrow> table_ok (hits search) \<Longrightarrow>
   table_ok (hits search')"
  by (induction ext terms ms search rule: match_mounts.induct)
     (auto simp: Let_def add_found_hit_ok split: if_splits)

lemma scan_ok:
  "search_add_volumes_and_bookmarks ext self = Inr self' \<Longrightarrow> hits_ok self \<Longrightarrow> hits_ok self'"
  by (auto simp: search_add_volumes_and_bookmarks_def Let_def hits_ok_def
        split: option.splits sum.splits dest!: match_mounts_ok intro: match_bookmarks_ok)

lemma finish_ok: "hits_ok (finish_current_search self invoc result)"
  by (simp add: hits_ok_def finish_current_search_fields)

lemma execute_search_ok:
  "execute_search ext self invoc terms = Inr self' \<Longrightarrow> hits_ok self'"
proof -
  assume a: "execute_search ext self invoc terms = Inr self'"
  show ?thesis
  proof (cases "single_character terms")
    case True
    with a show ?thesis by (auto simp: execute_search_def Let_def finish_ok)
  next
    case False
    let ?self1 = "if current_search self \<noteq> None then cancel_current_search self else self"
    let ?e = "engines_created ?self1"
    let ?q = "\<lparr>query_text = g_strjoinv terms, query_location = nautilus_get_home_directory_uri ext\<rparr>"
    let ?self2 = "?self1\<lparr>effects := effects ?self1 @ [EngineNew ?e, ApplicationHold],
                          engines_created := Suc ?e,
                          current_search := Some \<lparr>engine = ?e, query = ?q, hits = [], invocation = invoc\<rparr>\<rparr>"
    from a False obtain self3 where
      s3: "search_add_volumes_and_bookmarks ext ?self2 = Inr self3"
      and s': "self' = self3\<lparr>effects := effects self3 @ [EngineSetQuery ?e ?q, EngineStart ?e]\<rparr>"
      by (auto simp: execute_search_def Let_def split: sum.splits)
    have "hits_ok ?self2" by (simp add: hits_ok_def table_ok_def)
    from scan_ok[OF s3 this] show ?thesis using s' by (simp add: hits_ok_def)
  qed
qed

lemma attributes_ready_loop_fields:
  "current_search (attributes_ready_loop ext self fs) = current_search self \<and>
   effects (attributes_ready_loop ext self fs) = effects self \<and>
   bookmarks (attributes_ready_loop ext self fs) = bookmarks self \<and>
   volumes (attributes_ready_loop ext self fs) = volumes self \<and>
   engines_created (attributes_ready_loop ext self fs) = engines_created self"
  by (induction fs arbitrary: self) simp_all

lemma return_from_cache_Inr:
  "result_metas_return_from_cache self data = Inr self' \<Longrightarrow>
   \<exists>ms. metas_from_cache (metas_cache self) (rmd_uris data) = Inr ms \<and>
        self' = self\<lparr>effects := effects self @ [ReturnMetas (rmd_invocation data) ms]\<rparr>"
  by (auto simp: result_metas_return_from_cache_def split: sum.splits)

lemma handle_get_result_metas_Inr:
  "handle_get_result_metas ext self invoc results = Inr self' \<Longrightarrow>
   current_search self' = current_search self \<and> metas_cache self' = metas_cache self \<and>
   bookmarks self' = bookmarks self \<and> volumes self' = volumes self \<and>
   (\<exists>x. effects self' = effects self @ map FileGetByUri (missed_uris (metas_cache self) results) @ [x] \<and>
        ((\<exists>ms. x = ReturnMetas invoc ms) \<or> (\<exists>fs d. x = CallWhenReady fs d)))"
  by (auto simp: handle_get_result_metas_def Let_def split: if_splits dest!: return_from_cache_Inr)

lemma attributes_ready_cb_Inr:
  "result_list_attributes_ready_cb ext self fs data = Inr self' \<Longrightarrow>
   current_search self' = current_search self \<and>
   bookmarks self' = bookmarks self \<and> volumes self' = volumes self \<and>
   (\<exists>ms. effects self' = effects self @ [ReturnMetas (rmd_invocation data) ms])"
  by (auto simp: result_list_attributes_ready_cb_def attributes_ready_loop_fields
         dest!: return_from_cache_Inr)

lemma dispatch_ok:
  "dispatch ext self ev = Inr self' \<Longrightarrow> hits_ok self \<Longrightarrow> hits_ok self'"
proof (cases ev)
  case (GetResultMetas i r)
  assume "dispatch ext self ev = Inr self'" "hits_ok self"
  then show ?thesis using GetResultMetas
    by (auto simp: hits_ok_def dest!: handle_get_result_metas_Inr)
next
  case (AttributesReady fs d)
  assume "dispatch ext self ev = Inr self'" "hits_ok self"
  then show ?thesis using AttributesReady
    by (auto simp: hits_ok_def dest!: attributes_ready_cb_Inr)
qed (auto simp: handle_get_initial_result_set_def handle_get_subsearch_result_set_def
       search_hits_added_cb_def search_hits_subtracted_cb_def search_finished_cb_def
       search_error_cb_def finish_current_search_fields hits_added_loop_ok
       hits_subtracted_loop_ok Let_def hits_ok_def
       split: option.splits if_splits dest: execute_search_ok[unfolded hits_ok_def])

lemma run_ok:
  "run ext self evs = Inr self' \<Longrightarrow> hits_ok self \<Longrightarrow> hits_ok self'"
  by (induction evs arbitrary: self) (auto split: sum.splits dest: dispatch_ok)

lemma init_ok: "hits_ok (nautilus_shell_search_provider_app_init bs monitor)"
  by (simp add: hits_ok_def nautilus_shell_search_provider_app_init_def)

lemma finished_reply:
  assumes live: "current_search self = Some search"
      and ok: "table_ok (hits search)"
      and order: "\<forall>xs. mset (hash_table_order ext xs) = mset xs"
  shows "\<exists>hs. search_finished_cb ext self =
                 Inr (finish_current_search self (invocation search) (map hit_uri hs)) \<and>
              set (map hit_uri hs) = dom (map_of (hits search)) \<and>
              distinct (map hit_uri hs) \<and>
              list_all (\<lambda>h. map_of (hits search) (hit_uri h) = Some h) hs \<and>
              sorted_wrt (\<lambda>a b. hit_relevance b \<le> hit_relevance a) hs"
proof -
  let ?hs = "g_list_sort search_hit_compare_relevance (g_hash_table_get_values ext (hits search))"
  have m: "mset ?hs = mset (map snd (hits search))"
    using order by (simp add: g_list_sort_mset g_hash_table_get_values_def)
  have "search_finished_cb ext self =
          Inr (finish_current_search self (invocation search) (map hit_uri ?hs))"
    using live by (simp add: search_finished_cb_def)
  then show ?thesis
    using table_ok_values[OF ok m] g_list_sort_relevance by blast
qed

text \<open>
  Claim C2. Take a search that is current in a state the provider can reach, and any
  sequence of hits-added and hits-subtracted notifications, followed by the finished
  signal. The notifications leave the hit table equal to the hit-set of the spec (a later
  hit for an identifier replaces the earlier one, a subtracted hit removes the entry).
  The reply to the request of the search then lists exactly the identifiers of that
  hit-set, each once, as the URIs of the hits stored under them, in an order in which
  relevance never increases. This holds for every order in which the hash table may list
  its values.
\<close>

theorem C2_finished_reply_sorted_hit_set:
  assumes reach: "run ext (nautilus_shell_search_provider_app_init bs monitor) evs0 = Inr self"
      and live: "current_search self = Some search"
      and notifs: "list_all is_hits_notification evs"
      and order: "\<forall>xs. mset (hash_table_order ext xs) = mset xs"
  shows "\<exists>self1 search1 hs.
           run ext self evs = Inr self1 \<and> current_search self1 = Some search1 \<and>
           map_of (hits search1) = hit_set_spec ext (query search) (map_of (hits search)) evs \<and>
           run ext self (evs @ [Finished]) =
             Inr (finish_current_search self1 (invocation search) (map hit_uri hs)) \<and>
           effects (finish_current_search self1 (invocation search) (map hit_uri hs)) =
             effects self @ [ReturnValue (invocation search) (map hit_uri hs),
                             ApplicationRelease, EngineUnref (engine search)] \<and>
           set (map hit_uri hs) = dom (map_of (hits search1)) \<and>
           distinct (map hit_uri hs) \<and>
           list_all (\<lambda>h. map_of (hits search1) (hit_uri h) = Some h) hs \<and>
           sorted_wrt (\<lambda>a b. hit_relevance b \<le> hit_relevance a) hs"
proof -
  have "hits_ok self" using run_ok[OF reach init_ok] .
  then have ok: "table_ok (hits search)" using live by (simp add: hits_ok_def)
  from run_notifications[OF live notifs, of ext] obtain search1 where
    r: "run ext self evs = Inr (self\<lparr>current_search := Some search1\<rparr>)"
    and f: "engine search1 = engine search" "invocation search1 = invocation search"
    and m: "map_of (hits search1) = hit_set_spec ext (query search) (map_of (hits search)) evs"
    and ok1: "table_ok (hits search1)"
    using ok by blast
  let ?self1 = "self\<lparr>current_search := Some search1\<rparr>"
  have cur: "current_search ?self1 = Some search1" by simp
  from finished_reply[OF cur ok1 order] obtain hs where
    fin: "search_finished_cb ext ?self1 =
            Inr (finish_current_search ?self1 (invocation search1) (map hit_uri hs))"
    and props: "set (map hit_uri hs) = dom (map_of (hits search1))"
      "distinct (map hit_uri hs)"
      "list_all (\<lambda>h. map_of (hits search1) (hit_uri h) = Some h) hs"
      "sorted_wrt (\<lambda>a b. hit_relevance b \<le> hit_relevance a) hs"
    by blast
  have run2: "run ext self (evs @ [Finished]) =
                Inr (finish_current_search ?self1 (invocation search) (map hit_uri hs))"
    using r fin f by (simp add: run_append)
  have eff: "effects (finish_current_search ?self1 (invocation search) (map hit_uri hs)) =
               effects self @ [ReturnValue (invocation search) (map hit_uri hs),
                               ApplicationRelease, EngineUnref (engine search)]"
    using f by (simp add: finish_current_search_effects)
  show ?thesis using r cur m run2 eff props by blast
qed

lemma example_reach:
  "run ascii_externals (nautilus_shell_search_provider_app_init [] no_volumes)
        [GetInitialResultSet 7 [''notes''],
         HitsAdded [\<lparr>hit_uri = ''file:///home/user/notes.txt'', hit_fts_rank = 2,
                     hit_relevance = 0\<rparr>]] = Inr example_app"
  by (simp add: nautilus_shell_search_provider_app_init_def no_volumes_def
        handle_get_initial_result_set_def
        execute_search_def single_character_def g_utf8_skip_def
        search_add_volumes_and_bookmarks_def mounts_to_check_of_def
        prepare_string_for_compare_def ascii_externals_def ascii_tolower_def g_strsplit_def
        search_hits_added_cb_def nautilus_search_hit_compute_scores_def
        g_hash_table_replace_def example_app_def example_search_def Let_def)

theorem C2_finished_reply_sorted_hit_set_witness:
  "run ascii_externals (nautilus_shell_search_provider_app_init [] no_volumes)
        [GetInitialResultSet 7 [''notes''],
         HitsAdded [\<lparr>hit_uri = ''file:///home/user/notes.txt'', hit_fts_rank = 2,
                     hit_relevance = 0\<rparr>]] = Inr example_app \<and>
   current_search example_app = Some example_search \<and>
   list_all is_hits_notification example_notifications \<and>
   (\<forall>xs. mset (hash_table_order ascii_externals xs) = mset xs) \<and>
   map_sum id effects (run ascii_externals example_app (example_notifications @ [Finished])) =
     Inr (effects example_app @
          [ReturnValue 7 [''file:///a'', ''file:///home/user/notes.txt''],
           ApplicationRelease, EngineUnref 0])"
proof -
  have h2: "current_search example_app = Some example_search" by (simp add: example_app_def)
  have h3: "list_all is_hits_notification example_notifications"
    by (simp add: example_notifications_def)
  have h4: "\<forall>xs. mset (hash_table_order ascii_externals xs) = mset xs"
    by (simp add: ascii_externals_def)
  from C2_finished_reply_sorted_hit_set[OF example_reach h2 h3 h4] obtain self1 and hs :: "NautilusSearchHit list" where
    r: "run ascii_externals example_app (example_notifications @ [Finished]) =
          Inr (finish_current_search self1 (invocation example_search) (map hit_uri hs))"
    and e: "effects (finish_current_search self1 (invocation example_search) (map hit_uri hs)) =
             effects example_app @ [ReturnValue (invocation example_search) (map hit_uri hs),
                             ApplicationRelease, EngineUnref (engine example_search)]"
    by blast
  let ?final = "finish_current_search
            (example_app\<lparr>current_search := Some (example_search\<lparr>hits :=
               [(''file:///home/user/notes.txt'',
               \<lparr>hit_uri = ''file:///home/user/notes.txt'', hit_fts_rank = 2, hit_relevance = 2\<rparr>),
               (''file:///a'', \<lparr>hit_uri = ''file:///a'', hit_fts_rank = 5, hit_relevance = 5\<rparr>)]\<rparr>)\<rparr>) 7
               [''file:///a'', ''file:///home/user/notes.txt'']"
  have v: "run ascii_externals example_app (example_notifications @ [Finished]) = Inr ?final"
    by (simp add: example_notifications_def example_app_def example_search_def
        search_hits_added_cb_def search_hits_subtracted_cb_def
        nautilus_search_hit_compute_scores_def g_hash_table_replace_def g_hash_table_remove_def
        search_finished_cb_def g_hash_table_get_values_def g_list_sort_def
        search_hit_compare_relevance_def ascii_externals_def Let_def)
  have eq: "finish_current_search self1 (invocation example_search) (map hit_uri hs) = ?final"
    using r v by simp
  have "map_sum id effects
          (run ascii_externals example_app (example_notifications @ [Finished])) =
        Inr (effects (finish_current_search self1 (invocation example_search) (map hit_uri hs)))"
    by (simp only: r map_sum.simps)
  then have last: "map_sum id effects
          (run ascii_externals example_app (example_notifications @ [Finished])) =
        Inr (effects example_app @
          [ReturnValue 7 [''file:///a'', ''file:///home/user/notes.txt''],
           ApplicationRelease, EngineUnref 0])"
    unfolding eq by (simp add: finish_current_search_effects example_search_def)
  show ?thesis
    using example_reach h2 h3 h4 last by (intro conjI)
qed

subsection \<open>One search at a time\<close>

lemma bounded_from_append:
  "bounded_from f es (xs @ ys) = (bounded_from f es xs \<and> bounded_from f (fold f xs es) ys)"
  by (induction xs arbitrary: es) (cases ys, auto)

lemma bounded_from_take:
  "bounded_from f es xs = (\<forall>n. length (fold f (take n xs) es) \<le> 1)"
proof (induction xs arbitrary: es)
  case Nil
  then show ?case by simp
next
  case (Cons x xs)
  have "(\<forall>n. length (fold f (take n (x # xs)) es) \<le> 1) =
        (length es \<le> 1 \<and> (\<forall>n. length (fold f (take n xs) (f x es)) \<le> 1))"
  proof
    assume a: "\<forall>n. length (fold f (take n (x # xs)) es) \<le> 1"
    have "length es \<le> 1" using a[rule_format, of 0] by simp
    moreover have "\<forall>n. length (fold f (take n xs) (f x es)) \<le> 1"
    proof
      fix n show "length (fold f (take n xs) (f x es)) \<le> 1"
        using a[rule_format, of "Suc n"] by simp
    qed
    ultimately show "length es \<le> 1 \<and> (\<forall>n. length (fold f (take n xs) (f x es)) \<le> 1)" by simp
  next
    assume b: "length es \<le> 1 \<and> (\<forall>n. length (fold f (take n xs) (f x es)) \<le> 1)"
    show "\<forall>n. length (fold f (take n (x # xs)) es) \<le> 1"
    proof
      fix n show "length (fold f (take n (x # xs)) es) \<le> 1"
        using b by (cases n) auto
    qed
  qed
  then show ?case using Cons.IH by simp
qed

lemma engines_inv_step:
  assumes "engines_inv self"
      and "effects self' = effects self @ ext"
      and "fold live_effect ext (cur_engines self) = cur_engines self'"
      and "fold running_effect ext (cur_engines self) = cur_engines self'"
      and "bounded_from live_effect (cur_engines self) ext"
      and "bounded_from running_effect (cur_engines self) ext"
  shows "engines_inv self'"
  using assms
  by (simp add: engines_inv_def live_engines_def running_engines_def bounded_from_append)

lemma cancel_None: "current_search self = None \<Longrightarrow> cancel_current_search self = self"
  by (simp add: cancel_current_search_def)

lemma finish_engines_inv:
  "engines_inv self \<Longrightarrow> engines_inv (finish_current_search self invoc result)"
  by (erule engines_inv_step[where ext = "ReturnValue invoc result #
       (case current_search self of None \<Rightarrow> []
        | Some search \<Rightarrow> [ApplicationRelease, EngineUnref (engine search)])"])
     (simp_all add: finish_current_search_effects finish_current_search_fields cur_engines_def
        split: option.splits)

lemma cancel_engines_inv:
  "engines_inv self \<Longrightarrow> engines_inv (cancel_current_search self)"
  by (erule engines_inv_step[where ext = "
       (case current_search self of None \<Rightarrow> []
        | Some search \<Rightarrow> [EngineStop (engine search), ReturnValue (invocation search) [],
                          ApplicationRelease, EngineUnref (engine search)])"])
     (simp_all add: cancel_current_search_effects cancel_current_search_fields cur_engines_def
        split: option.splits)

lemma execute_search_Inr:
  assumes "execute_search ext self invoc terms = Inr self'"
  shows "metas_cache self' = metas_cache self \<and> bookmarks self' = bookmarks self \<and>
         volumes self' = volumes self \<and>
         ((single_character terms \<and> current_search self' = None \<and>
           effects self' = effects (cancel_current_search self) @ [ReturnValue invoc []]) \<or>
          (\<not> single_character terms \<and>
           (\<exists>new. current_search self' = Some new \<and> invocation new = invoc \<and>
              engine new = engines_created self \<and>
              query new = \<lparr>query_text = g_strjoinv terms,
                           query_location = nautilus_get_home_directory_uri ext\<rparr> \<and>
              effects self' = effects (cancel_current_search self) @
                [EngineNew (engine new), ApplicationHold,
                 EngineSetQuery (engine new) (query new), EngineStart (engine new)])))"
proof -
  have c: "(if current_search self \<noteq> None then cancel_current_search self else self) =
           cancel_current_search self"
    by (simp add: cancel_None)
  show ?thesis
  proof (cases "single_character terms")
    case True
    then show ?thesis using assms unfolding execute_search_def c
      by (auto simp: Let_def finish_current_search_effects finish_current_search_fields
            cancel_current_search_fields)
  next
    case False
    then show ?thesis using assms unfolding execute_search_def c
      by (auto simp: Let_def cancel_current_search_fields split: sum.splits dest!: scan_Inr)
  qed
qed

lemma execute_search_engines_inv:
  assumes "execute_search ext self invoc terms = Inr self'" and "engines_inv self"
  shows "engines_inv self'"
proof -
  have ci: "engines_inv (cancel_current_search self)" using assms(2) by (rule cancel_engines_inv)
  have cn: "cur_engines (cancel_current_search self) = []"
    by (simp add: cur_engines_def cancel_current_search_fields)
  from execute_search_Inr[OF assms(1)] show ?thesis
  proof (elim conjE disjE exE)
    assume e: "effects self' = effects (cancel_current_search self) @ [ReturnValue invoc []]"
      and c: "current_search self' = None"
    show ?thesis
      by (rule engines_inv_step[OF ci e])
         (simp_all add: c cur_engines_def cancel_current_search_fields)
  next
    fix new
    assume e: "effects self' = effects (cancel_current_search self) @
                [EngineNew (engine new), ApplicationHold,
                 EngineSetQuery (engine new) (query new), EngineStart (engine new)]"
      and c: "current_search self' = Some new"
    show ?thesis
      by (rule engines_inv_step[OF ci e])
         (simp_all add: c cur_engines_def cancel_current_search_fields)
  qed
qed

lemma dispatch_engines_inv:
  assumes "dispatch ext self ev = Inr self'" and "engines_inv self"
  shows "engines_inv self'"
proof (cases ev)
  case (GetInitialResultSet i t)
  then show ?thesis using assms
    by (auto simp: handle_get_initial_result_set_def dest: execute_search_engines_inv)
next
  case (GetSubsearchResultSet i p t)
  then show ?thesis using assms
    by (auto simp: handle_get_subsearch_result_set_def dest: execute_search_engines_inv)
next
  case (GetResultMetas i r)
  with assms(1) have h: "handle_get_result_metas ext self i r = Inr self'" by simp
  from handle_get_result_metas_Inr[OF h] obtain x where
    e: "effects self' = effects self @ map FileGetByUri (missed_uris (metas_cache self) r) @ [x]"
    and x: "(\<exists>ms. x = ReturnMetas i ms) \<or> (\<exists>fs d. x = CallWhenReady fs d)"
    and c: "current_search self' = current_search self" by blast
  have l: "\<And>es us. fold live_effect (map FileGetByUri us) es = es"
    subgoal for es us by (induction us) auto done
  have r: "\<And>es us. fold running_effect (map FileGetByUri us) es = es"
    subgoal for es us by (induction us) auto done
  have bl: "\<And>es us. length es \<le> 1 \<Longrightarrow> bounded_from live_effect es (map FileGetByUri us)"
    subgoal for es us by (induction us) auto done
  have br: "\<And>es us. length es \<le> 1 \<Longrightarrow> bounded_from running_effect es (map FileGetByUri us)"
    subgoal for es us by (induction us) auto done
  have len: "length (cur_engines self) \<le> 1" by (simp add: cur_engines_def split: option.splits)
  show ?thesis
    using x c len
    by (intro engines_inv_step[OF assms(2) e])
       (auto simp: l r bl br bounded_from_append cur_engines_def)
next
  case (HitsAdded hs)
  then show ?thesis using assms
    by (auto simp: search_hits_added_cb_def engines_inv_def cur_engines_def
          hits_added_loop_fields split: option.splits if_splits)
next
  case (HitsSubtracted hs)
  then show ?thesis using assms
    by (auto simp: search_hits_subtracted_cb_def engines_inv_def cur_engines_def
          hits_subtracted_loop_fields split: option.splits if_splits)
next
  case Finished
  then show ?thesis using assms
    by (auto simp: search_finished_cb_def Let_def finish_engines_inv split: option.splits)
next
  case (Error m)
  then show ?thesis using assms
    by (auto simp: search_error_cb_def finish_engines_inv split: option.splits)
next
  case (AttributesReady fs d)
  with assms(1) have h: "result_list_attributes_ready_cb ext self fs d = Inr self'" by simp
  from attributes_ready_cb_Inr[OF h] obtain ms where
    e: "effects self' = effects self @ [ReturnMetas (rmd_invocation d) ms]"
    and c: "current_search self' = current_search self" by blast
  show ?thesis
    using c by (intro engines_inv_step[OF assms(2) e])
       (auto simp: cur_engines_def split: option.splits)
qed

lemma run_engines_inv:
  "run ext self evs = Inr self' \<Longrightarrow> engines_inv self \<Longrightarrow> engines_inv self'"
  by (induction evs arbitrary: self) (auto split: sum.splits dest: dispatch_engines_inv)

lemma init_engines_inv: "engines_inv (nautilus_shell_search_provider_app_init bs monitor)"
  by (simp add: engines_inv_def nautilus_shell_search_provider_app_init_def cur_engines_def
        live_engines_def running_engines_def)

lemma engines_inv_bounded:
  "engines_inv self \<Longrightarrow>
   (\<forall>n. length (live_engines (take n (effects self))) \<le> 1 \<and>
        length (running_engines (take n (effects self))) \<le> 1)"
  by (simp add: engines_inv_def bounded_from_take live_engines_def running_engines_def)

text \<open>
  Claim C1. In every state the provider reaches from its initial state, at every point
  of the log of effects at most one engine has been created and not released, and at most
  one has been started and not stopped. When a search request, initial or subsearch,
  arrives while a search is current, the first effects are those that finalize the
  current search (its engine stopped, its request answered with the empty identifier
  list, the hold released, the engine released), and only after them comes either the
  immediate empty reply to the new request or the creation and the start of the new
  engine.
\<close>

theorem C1_one_search_at_a_time:
  assumes reach: "run ext (nautilus_shell_search_provider_app_init bs monitor) evs = Inr self"
  shows "(\<forall>n. length (live_engines (take n (effects self))) \<le> 1 \<and>
              length (running_engines (take n (effects self))) \<le> 1) \<and>
         (\<forall>old invoc previous_results terms self'.
            current_search self = Some old \<and>
            (handle_get_initial_result_set ext self invoc terms = Inr self' \<or>
             handle_get_subsearch_result_set ext self invoc previous_results terms = Inr self')
            \<longrightarrow>
            (\<exists>rest. effects self' =
                      effects self @
                      [EngineStop (engine old), ReturnValue (invocation old) [],
                       ApplicationRelease, EngineUnref (engine old)] @ rest \<and>
                    (rest = [ReturnValue invoc []] \<and> current_search self' = None \<or>
                     (\<exists>new. current_search self' = Some new \<and> invocation new = invoc \<and>
                        rest = [EngineNew (engine new), ApplicationHold,
                                EngineSetQuery (engine new) (query new),
                                EngineStart (engine new)]))))"
proof (intro conjI allI impI)
  fix n
  have inv: "engines_inv self" using run_engines_inv[OF reach init_engines_inv] .
  show "length (live_engines (take n (effects self))) \<le> 1"
    using engines_inv_bounded[OF inv] by simp
  show "length (running_engines (take n (effects self))) \<le> 1"
    using engines_inv_bounded[OF inv] by simp
next
  fix old invoc previous_results terms self'
  assume a: "current_search self = Some old \<and>
            (handle_get_initial_result_set ext self invoc terms = Inr self' \<or>
             handle_get_subsearch_result_set ext self invoc previous_results terms = Inr self')"
  then have ex: "execute_search ext self invoc terms = Inr self'"
    by (auto simp: handle_get_initial_result_set_def handle_get_subsearch_result_set_def)
  have ce: "effects (cancel_current_search self) =
              effects self @ [EngineStop (engine old), ReturnValue (invocation old) [],
                              ApplicationRelease, EngineUnref (engine old)]"
    using a by (simp add: cancel_current_search_effects)
  from execute_search_Inr[OF ex]
  show "\<exists>rest. effects self' =
                      effects self @
                      [EngineStop (engine old), ReturnValue (invocation old) [],
                       ApplicationRelease, EngineUnref (engine old)] @ rest \<and>
                    (rest = [ReturnValue invoc []] \<and> current_search self' = None \<or>
                     (\<exists>new. current_search self' = Some new \<and> invocation new = invoc \<and>
                        rest = [EngineNew (engine new), ApplicationHold,
                                EngineSetQuery (engine new) (query new),
                                EngineStart (engine new)]))"
    unfolding ce by auto
qed

theorem C1_one_search_at_a_time_witness:
  "run ascii_externals (nautilus_shell_search_provider_app_init [] no_volumes)
        [GetInitialResultSet 7 [''notes''],
         HitsAdded [\<lparr>hit_uri = ''file:///home/user/notes.txt'', hit_fts_rank = 2,
                     hit_relevance = 0\<rparr>]] = Inr example_app \<and>
   current_search example_app = Some example_search \<and>
   (\<exists>self'. handle_get_subsearch_result_set ascii_externals example_app 8
              [''file:///home/user/notes.txt''] [''notes'', ''2023''] = Inr self' \<and>
      effects self' =
        [EngineNew 0, ApplicationHold, EngineSetQuery 0 (query example_search), EngineStart 0,
         EngineStop 0, ReturnValue 7 [], ApplicationRelease, EngineUnref 0,
         EngineNew 1, ApplicationHold,
         EngineSetQuery 1 \<lparr>query_text = ''notes 2023'', query_location = ''file:///home/user''\<rparr>,
         EngineStart 1]) \<and>
   (\<forall>n. length (live_engines (take n (effects example_app))) \<le> 1 \<and>
        length (running_engines (take n (effects example_app))) \<le> 1)"
proof -
  have h2: "current_search example_app = Some example_search" by (simp add: example_app_def)
  have v: "\<exists>self'. handle_get_subsearch_result_set ascii_externals example_app 8
              [''file:///home/user/notes.txt''] [''notes'', ''2023''] = Inr self' \<and>
      effects self' =
        [EngineNew 0, ApplicationHold, EngineSetQuery 0 (query example_search), EngineStart 0,
         EngineStop 0, ReturnValue 7 [], ApplicationRelease, EngineUnref 0,
         EngineNew 1, ApplicationHold,
         EngineSetQuery 1 \<lparr>query_text = ''notes 2023'', query_location = ''file:///home/user''\<rparr>,
         EngineStart 1]"
    by (simp add: handle_get_subsearch_result_set_def
        execute_search_def single_character_def cancel_current_search_def
        finish_current_search_def pending_search_free_def
        search_add_volumes_and_bookmarks_def mounts_to_check_of_def no_volumes_def
        prepare_string_for_compare_def ascii_externals_def ascii_tolower_def g_strsplit_def
        example_app_def example_search_def Let_def)
  show ?thesis
    using example_reach h2 v C1_one_search_at_a_time[OF example_reach] by (intro conjI) blast+
qed

subsection \<open>Matching bookmarks and mounts\<close>

lemma strstr_sublist: "(strstr hay needle \<noteq> None) = sublist needle hay"
  by (induction hay) (auto simp: sublist_Cons_right)

lemma terms_found_iff: "terms_found prepared terms = (\<forall>t \<in> set terms. sublist t prepared)"
  by (induction terms) (auto simp: strstr_sublist[symmetric])

lemma add_found_hit_keys:
  "fst ` set (hits (add_found_hit ext uri search)) = insert uri (fst ` set (hits search))"
  by (simp add: add_found_hit_def Let_def g_hash_table_replace_def dom_update)

lemma match_bookmarks_keys:
  "fst ` set (hits (match_bookmarks ext terms bs search)) =
     fst ` set (hits search) \<union>
     bookmark_uri ` {b \<in> set bs. terms_found (prepare_string_for_compare ext (bookmark_name b)) terms}"
  by (induction bs arbitrary: search) (auto simp: Let_def add_found_hit_keys)

lemma match_mounts_keys:
  "match_mounts ext terms ms search = Inr search' \<Longrightarrow>
   fst ` set (hits search') =
     fst ` set (hits search) \<union>
     mount_default_location_uri `
       {m. Some m \<in> set ms \<and> terms_found (prepare_string_for_compare ext (mount_name m)) terms}"
proof (induction ext terms ms search rule: match_mounts.induct)
  case (1 ext terms search)
  then show ?case by simp
next
  case (2 ext terms l search)
  then show ?case by simp
next
  case (3 ext terms mount l search)
  show ?case
  proof (cases "terms_found (prepare_string_for_compare ext (mount_name mount)) terms")
    case True
    with 3 show ?thesis by (auto simp: Let_def add_found_hit_keys)
  next
    case False
    with 3 show ?thesis by (auto simp: Let_def)
  qed
qed

lemma execute_search_keys:
  assumes ex: "execute_search ext self invoc terms = Inr self'"
      and ns: "\<not> single_character terms"
  shows "\<exists>new. current_search self' = Some new \<and> invocation new = invoc \<and>
           table_ok (hits new) \<and>
           fst ` set (hits new) =
             bookmark_uri ` {b \<in> set (bookmarks self).
                terms_found (prepare_string_for_compare ext (bookmark_name b))
                  (g_strsplit (prepare_string_for_compare ext (g_strjoinv terms)))} \<union>
             mount_default_location_uri ` {m. Some m \<in> set (mounts_to_check_of (volumes self)) \<and>
                terms_found (prepare_string_for_compare ext (mount_name m))
                  (g_strsplit (prepare_string_for_compare ext (g_strjoinv terms)))}"
proof -
  let ?self1 = "cancel_current_search self"
  let ?e = "engines_created ?self1"
  let ?q = "\<lparr>query_text = g_strjoinv terms, query_location = nautilus_get_home_directory_uri ext\<rparr>"
  let ?p = "\<lparr>engine = ?e, query = ?q, hits = [], invocation = invoc\<rparr>"
  let ?self2 = "?self1\<lparr>effects := effects ?self1 @ [EngineNew ?e, ApplicationHold],
                        engines_created := Suc ?e, current_search := Some ?p\<rparr>"
  let ?terms = "g_strsplit (prepare_string_for_compare ext (g_strjoinv terms))"
  have c: "(if current_search self \<noteq> None then cancel_current_search self else self) = ?self1"
    by (simp add: cancel_None)
  from ex ns obtain self3 where
    s3: "search_add_volumes_and_bookmarks ext ?self2 = Inr self3"
    and s': "self' = self3\<lparr>effects := effects self3 @ [EngineSetQuery ?e ?q, EngineStart ?e]\<rparr>"
    unfolding execute_search_def c by (auto simp: Let_def split: sum.splits)
  from s3 obtain search2 where
    mm: "match_mounts ext ?terms (mounts_to_check_of (volumes self))
           (match_bookmarks ext ?terms (bookmarks self) ?p) = Inr search2"
    and s3': "self3 = ?self2\<lparr>current_search := Some search2\<rparr>"
    by (auto simp: search_add_volumes_and_bookmarks_def Let_def cancel_current_search_fields
          split: sum.splits)
  have ok: "table_ok (hits search2)"
    using match_mounts_ok[OF mm] match_bookmarks_ok[of ?p ext ?terms "bookmarks self"]
    by (simp add: table_ok_def)
  have inv: "invocation search2 = invoc"
    using match_mounts_fields[OF mm] by (simp add: match_bookmarks_fields)
  show ?thesis
    using match_mounts_keys[OF mm] ok inv s' s3'
    by (simp add: match_bookmarks_keys)
qed

lemma strsplit_pieces_not_Nil: "strsplit_pieces s \<noteq> []"
  by (induction s) (auto split: list.splits)

lemma spec_terms_no_empty: "[] \<notin> set (spec_whitespace_terms s)"
  by (induction s rule: spec_whitespace_terms.induct) (auto split: list.splits)

lemma strsplit_pieces_hd_Nil:
  "(hd (strsplit_pieces s) = []) = (s = [] \<or> hd s = CHR '' '')"
  by (cases s) (auto split: list.splits simp: strsplit_pieces_not_Nil)

lemma spec_terms_eq_pieces:
  assumes "\<forall>c \<in> set s. is_whitespace c \<longrightarrow> c = CHR '' ''"
  shows "spec_whitespace_terms s = filter (\<lambda>t. t \<noteq> []) (strsplit_pieces s)"
  using assms
proof (induction s rule: spec_whitespace_terms.induct)
  case 1
  then show ?case by simp
next
  case (2 c cs)
  have sp: "is_whitespace CHR '' ''" by (simp add: is_whitespace_def)
  show ?case
  proof (cases "is_whitespace c")
    case True
    then have "c = CHR '' ''" using 2 by simp
    then show ?thesis using 2 True by simp
  next
    case False
    then have cn: "c \<noteq> CHR '' ''" using sp by auto
    show ?thesis
    proof (cases cs)
      case Nil
      then show ?thesis using False cn by simp
    next
      case (Cons d ds)
      show ?thesis
      proof (cases "is_whitespace d")
        case True
        then have d: "d = CHR '' ''" using 2 Cons by simp
        have "spec_whitespace_terms cs = filter (\<lambda>t. t \<noteq> []) (strsplit_pieces cs)"
          using 2 False Cons True by simp
        then show ?thesis using False cn Cons True d by (simp split: list.splits)
      next
        case F2: False
        then have dn: "d \<noteq> CHR '' ''" using sp by auto
        have ih: "spec_whitespace_terms cs = filter (\<lambda>t. t \<noteq> []) (strsplit_pieces cs)"
          using 2 False Cons F2 by simp
        obtain t ts where p: "strsplit_pieces cs = t # ts"
          using strsplit_pieces_not_Nil[of cs] by (cases "strsplit_pieces cs") auto
        have tn: "t \<noteq> []" using p Cons dn by (auto split: list.splits if_splits)
        show ?thesis using False cn Cons F2 ih p tn by simp
      qed
    qed
  qed
qed

lemma terms_found_spec_terms:
  assumes "\<forall>c \<in> set q. is_whitespace c \<longrightarrow> c = CHR '' ''"
  shows "terms_found prepared (g_strsplit q) =
           (\<forall>t \<in> set (spec_whitespace_terms q). sublist t prepared)"
proof (cases "q = []")
  case True
  then show ?thesis by (simp add: g_strsplit_def)
next
  case False
  have "(\<forall>t \<in> set (strsplit_pieces q). sublist t prepared) =
        (\<forall>t \<in> set (filter (\<lambda>t. t \<noteq> []) (strsplit_pieces q)). sublist t prepared)"
    by auto
  then show ?thesis
    using False spec_terms_eq_pieces[OF assms] by (simp add: g_strsplit_def terms_found_iff)
qed

lemma fold_added_dom:
  "k \<in> dom m \<Longrightarrow>
   k \<in> dom (fold (\<lambda>h m'. m'(hit_uri h \<mapsto> nautilus_search_hit_compute_scores ext h q)) hs m)"
  by (induction hs arbitrary: m) auto

lemma fold_subtracted_dom:
  "k \<in> dom m \<Longrightarrow> k \<notin> set (map hit_uri hs) \<Longrightarrow>
   k \<in> dom (fold (\<lambda>h m'. m'(hit_uri h := None)) hs m)"
  by (induction hs arbitrary: m) auto

lemma hit_set_spec_keeps:
  "k \<in> dom m \<Longrightarrow> \<not> uri_subtracted k evs \<Longrightarrow> k \<in> dom (hit_set_spec ext q m evs)"
proof (induction ext q m evs rule: hit_set_spec.induct)
  case (2 ext q m hs evs)
  then show ?case using fold_added_dom[of k m ext q hs] by simp
next
  case (3 ext q m hs evs)
  then show ?case using fold_subtracted_dom[of k m hs] by simp
qed simp_all

lemma execute_search_total:
  assumes ns: "\<not> single_character terms"
      and mounted: "None \<notin> set (mounts_to_check_of (volumes self))"
  shows "\<exists>self1. execute_search ext self invoc terms = Inr self1"
proof -
  have c: "(if current_search self \<noteq> None then cancel_current_search self else self) =
           cancel_current_search self"
    by (simp add: cancel_None)
  have "\<And>ts s f. match_mounts ext ts (mounts_to_check_of (volumes self)) s \<noteq> Inl f"
    using match_mounts_fault_iff mounted by blast
  then show ?thesis
    using ns unfolding execute_search_def c
    by (auto simp: Let_def search_add_volumes_and_bookmarks_def cancel_current_search_fields
          split: sum.splits)
qed

text \<open>
  Claim C5, as the code has it. The terms are the pieces of the normalised, lowercased
  query text between space characters; no other whitespace separates terms. The test
  both matching loops make on the normalised, lowercased name of a candidate holds
  exactly when every term is a contiguous part of that name, and when the query text has
  no whitespace but spaces these are the whitespace-separated terms of the spec.

  The consequence holds for a term list that is not one term of one character and a
  volume monitor all of whose enumerated volumes are mounted: the search starts, its hit
  table holds exactly the URIs of the bookmarks and of the checked mounts whose names
  pass the test, and after any hits-added and hits-subtracted notifications the finished
  reply lists every one of these URIs that no hits-subtracted notification names. With
  no notification at all the reply lists exactly these URIs.
\<close>

theorem C5_scan_matches_all_terms:
  assumes order: "\<forall>xs. mset (hash_table_order ext xs) = mset xs"
      and ns: "\<not> single_character terms"
      and mounted: "None \<notin> set (mounts_to_check_of (volumes self))"
      and notifs: "list_all is_hits_notification evs"
  shows "(\<forall>name. terms_found (prepare_string_for_compare ext name)
                    (g_strsplit (prepare_string_for_compare ext (g_strjoinv terms))) =
                  (\<forall>t \<in> set (g_strsplit (prepare_string_for_compare ext (g_strjoinv terms))).
                     sublist t (prepare_string_for_compare ext name))) \<and>
         ((\<forall>c \<in> set (prepare_string_for_compare ext (g_strjoinv terms)).
             is_whitespace c \<longrightarrow> c = CHR '' '') \<longrightarrow>
          (\<forall>name. terms_found (prepare_string_for_compare ext name)
                     (g_strsplit (prepare_string_for_compare ext (g_strjoinv terms))) =
                   (\<forall>t \<in> set (spec_whitespace_terms
                                 (prepare_string_for_compare ext (g_strjoinv terms))).
                      sublist t (prepare_string_for_compare ext name)))) \<and>
         (\<exists>self1 new self2 ids.
            execute_search ext self invoc terms = Inr self1 \<and>
            current_search self1 = Some new \<and>
            fst ` set (hits new) =
              bookmark_uri ` {b \<in> set (bookmarks self).
                 \<forall>t \<in> set (g_strsplit (prepare_string_for_compare ext (g_strjoinv terms))).
                    sublist t (prepare_string_for_compare ext (bookmark_name b))} \<union>
              mount_default_location_uri ` {m. Some m \<in> set (mounts_to_check_of (volumes self)) \<and>
                 (\<forall>t \<in> set (g_strsplit (prepare_string_for_compare ext (g_strjoinv terms))).
                    sublist t (prepare_string_for_compare ext (mount_name m)))} \<and>
            run ext self1 (evs @ [Finished]) = Inr self2 \<and>
            effects self2 =
              effects self1 @ [ReturnValue invoc ids, ApplicationRelease, EngineUnref (engine new)] \<and>
            (\<forall>u \<in> fst ` set (hits new). \<not> uri_subtracted u evs \<longrightarrow> u \<in> set ids) \<and>
            (evs = [] \<longrightarrow> set ids = fst ` set (hits new)))"
proof -
  from execute_search_total[OF ns mounted] obtain self1 where
    ex: "execute_search ext self invoc terms = Inr self1" by blast
  from execute_search_keys[OF ex ns] obtain new where
    cur: "current_search self1 = Some new" and inv: "invocation new = invoc"
    and ok: "table_ok (hits new)"
    and keys: "fst ` set (hits new) =
             bookmark_uri ` {b \<in> set (bookmarks self).
                terms_found (prepare_string_for_compare ext (bookmark_name b))
                  (g_strsplit (prepare_string_for_compare ext (g_strjoinv terms)))} \<union>
             mount_default_location_uri ` {m. Some m \<in> set (mounts_to_check_of (volumes self)) \<and>
                terms_found (prepare_string_for_compare ext (mount_name m))
                  (g_strsplit (prepare_string_for_compare ext (g_strjoinv terms)))}"
    by blast
  from run_notifications[OF cur notifs, of ext] obtain search1 where
    r: "run ext self1 evs = Inr (self1\<lparr>current_search := Some search1\<rparr>)"
    and f: "engine search1 = engine new" "invocation search1 = invocation new"
    and m: "map_of (hits search1) = hit_set_spec ext (query new) (map_of (hits new)) evs"
    and ok1: "table_ok (hits search1)"
    using ok by blast
  let ?self1 = "self1\<lparr>current_search := Some search1\<rparr>"
  have cur1: "current_search ?self1 = Some search1" by simp
  from finished_reply[OF cur1 ok1 order] obtain hs :: "NautilusSearchHit list" where
    fin: "search_finished_cb ext ?self1 =
            Inr (finish_current_search ?self1 (invocation search1) (map hit_uri hs))"
    and ids: "set (map hit_uri hs) = dom (map_of (hits search1))"
    by blast
  let ?ids = "map hit_uri hs"
  let ?self2 = "finish_current_search ?self1 invoc ?ids"
  have run2: "run ext self1 (evs @ [Finished]) = Inr ?self2"
    using r fin f inv by (simp add: run_append)
  have eff: "effects ?self2 =
               effects self1 @ [ReturnValue invoc ?ids, ApplicationRelease, EngineUnref (engine new)]"
    using f by (simp add: finish_current_search_effects)
  have keep: "\<forall>u \<in> fst ` set (hits new). \<not> uri_subtracted u evs \<longrightarrow> u \<in> set ?ids"
  proof (intro ballI impI)
    fix u assume u: "u \<in> fst ` set (hits new)" and n: "\<not> uri_subtracted u evs"
    have "u \<in> dom (map_of (hits new))" using u by (simp add: dom_map_of_conv_image_fst)
    from hit_set_spec_keeps[OF this n, of ext "query new"]
    show "u \<in> set ?ids" using ids m by simp
  qed
  have none: "evs = [] \<longrightarrow> set ?ids = fst ` set (hits new)"
    using ids m by (auto simp: dom_map_of_conv_image_fst)
  have keys': "fst ` set (hits new) =
              bookmark_uri ` {b \<in> set (bookmarks self).
                 \<forall>t \<in> set (g_strsplit (prepare_string_for_compare ext (g_strjoinv terms))).
                    sublist t (prepare_string_for_compare ext (bookmark_name b))} \<union>
              mount_default_location_uri ` {m. Some m \<in> set (mounts_to_check_of (volumes self)) \<and>
                 (\<forall>t \<in> set (g_strsplit (prepare_string_for_compare ext (g_strjoinv terms))).
                    sublist t (prepare_string_for_compare ext (mount_name m)))}"
    using keys by (simp add: terms_found_iff)
  have third: "\<exists>self1 new self2 ids.
            execute_search ext self invoc terms = Inr self1 \<and>
            current_search self1 = Some new \<and>
            fst ` set (hits new) =
              bookmark_uri ` {b \<in> set (bookmarks self).
                 \<forall>t \<in> set (g_strsplit (prepare_string_for_compare ext (g_strjoinv terms))).
                    sublist t (prepare_string_for_compare ext (bookmark_name b))} \<union>
              mount_default_location_uri ` {m. Some m \<in> set (mounts_to_check_of (volumes self)) \<and>
                 (\<forall>t \<in> set (g_strsplit (prepare_string_for_compare ext (g_strjoinv terms))).
                    sublist t (prepare_string_for_compare ext (mount_name m)))} \<and>
            run ext self1 (evs @ [Finished]) = Inr self2 \<and>
            effects self2 =
              effects self1 @ [ReturnValue invoc ids, ApplicationRelease, EngineUnref (engine new)] \<and>
            (\<forall>u \<in> fst ` set (hits new). \<not> uri_subtracted u evs \<longrightarrow> u \<in> set ids) \<and>
            (evs = [] \<longrightarrow> set ids = fst ` set (hits new))"
    using ex cur keys' run2 eff keep none
    by (intro exI[of _ self1] exI[of _ new] exI[of _ ?self2] exI[of _ ?ids]) simp
  show ?thesis
    using third terms_found_spec_terms by (intro conjI) (simp_all add: terms_found_iff)
qed

lemmas eval_defs = nautilus_shell_search_provider_app_init_def no_volumes_def
        handle_get_initial_result_set_def
        execute_search_def single_character_def g_utf8_skip_def
        search_add_volumes_and_bookmarks_def mounts_to_check_of_def
        prepare_string_for_compare_def ascii_externals_def ascii_tolower_def g_strsplit_def
        add_found_hit_def nautilus_search_hit_new_def nautilus_search_hit_compute_scores_def
        g_hash_table_replace_def search_finished_cb_def g_hash_table_get_values_def
        g_list_sort_def finish_current_search_def pending_search_free_def Let_def

theorem C5_scan_matches_all_terms_witness:
  "(\<forall>xs. mset (hash_table_order ascii_externals xs) = mset xs) \<and>
   \<not> single_character [''report'', ''2023''] \<and>
   None \<notin> set (mounts_to_check_of (volumes report_bookmark_app)) \<and>
   list_all is_hits_notification [] \<and>
   (\<exists>self1 self2 ids.
      execute_search ascii_externals report_bookmark_app 1 [''report'', ''2023''] = Inr self1 \<and>
      run ascii_externals self1 ([] @ [Finished]) = Inr self2 \<and>
      ReturnValue 1 ids \<in> set (effects self2) \<and>
      set ids = {''file:///a''}) \<and>
   map_sum id effects
     (run ascii_externals report_bookmark_app
        [GetInitialResultSet 1 [''report'', ''2023''], Finished]) =
   Inr [EngineNew 0, ApplicationHold,
        EngineSetQuery 0 \<lparr>query_text = ''report 2023'', query_location = ''file:///home/user''\<rparr>,
        EngineStart 0, ReturnValue 1 [''file:///a''], ApplicationRelease, EngineUnref 0] \<and>
   terms_found (prepare_string_for_compare ascii_externals ''My Documents'')
     (g_strsplit (prepare_string_for_compare ascii_externals (g_strjoinv [''doc'']))) \<and>
   terms_found (prepare_string_for_compare ascii_externals ''My Documents'')
     (g_strsplit (prepare_string_for_compare ascii_externals (g_strjoinv [''my'', ''doc'']))) \<and>
   \<not> terms_found (prepare_string_for_compare ascii_externals ''My Documents'')
     (g_strsplit (prepare_string_for_compare ascii_externals (g_strjoinv [''xyz''])))"
proof -
  have h1: "\<forall>xs. mset (hash_table_order ascii_externals xs) = mset xs"
    by (simp add: ascii_externals_def)
  have h2: "\<not> single_character [''report'', ''2023'']" by (simp add: single_character_def)
  have bs: "bookmarks report_bookmark_app =
       [\<lparr>bookmark_name = ''2023 Report Draft'', bookmark_uri = ''file:///a'',
         bookmark_icon = None\<rparr>]"
    and vs: "mounts_to_check_of (volumes report_bookmark_app) = []"
    by (simp_all add: report_bookmark_app_def eval_defs)
  have h3: "None \<notin> set (mounts_to_check_of (volumes report_bookmark_app))"
    by (simp add: vs)
  have h4: "list_all is_hits_notification []" by simp
  have tf: "terms_found (prepare_string_for_compare ascii_externals ''2023 Report Draft'')
     (g_strsplit (prepare_string_for_compare ascii_externals (g_strjoinv [''report'', ''2023''])))"
    by (simp add: eval_defs)
  let ?K = "bookmark_uri ` {b \<in> set (bookmarks report_bookmark_app).
                 \<forall>t \<in> set (g_strsplit (prepare_string_for_compare ascii_externals (g_strjoinv [''report'', ''2023'']))).
                    sublist t (prepare_string_for_compare ascii_externals (bookmark_name b))} \<union>
              mount_default_location_uri ` {m. Some m \<in> set (mounts_to_check_of (volumes report_bookmark_app)) \<and>
                 (\<forall>t \<in> set (g_strsplit (prepare_string_for_compare ascii_externals (g_strjoinv [''report'', ''2023'']))).
                    sublist t (prepare_string_for_compare ascii_externals (mount_name m)))}"
  from C5_scan_matches_all_terms[OF h1 h2 h3 h4, of 1, THEN conjunct2, THEN conjunct2]
  obtain self1 self2 :: NautilusShellSearchProviderApp
     and new :: PendingSearch and ids :: "string list" where
    p: "execute_search ascii_externals report_bookmark_app 1 [''report'', ''2023''] = Inr self1 \<and>
        current_search self1 = Some new \<and>
        fst ` set (hits new) = ?K \<and>
        run ascii_externals self1 ([] @ [Finished]) = Inr self2 \<and>
        effects self2 =
          effects self1 @ [ReturnValue 1 ids, ApplicationRelease, EngineUnref (engine new)] \<and>
        (\<forall>u \<in> fst ` set (hits new). \<not> uri_subtracted u [] \<longrightarrow> u \<in> set ids) \<and>
        (([]::event list) = [] \<longrightarrow> set ids = fst ` set (hits new))"
    by (elim exE) (rule that)
  note ex = p[THEN conjunct1]
  note keys = p[THEN conjunct2, THEN conjunct2, THEN conjunct1]
  note r = p[THEN conjunct2, THEN conjunct2, THEN conjunct2, THEN conjunct1]
  note e = p[THEN conjunct2, THEN conjunct2, THEN conjunct2, THEN conjunct2, THEN conjunct1]
  note n = p[THEN conjunct2, THEN conjunct2, THEN conjunct2, THEN conjunct2, THEN conjunct2,
             THEN conjunct2]
  have "fst ` set (hits new) = {''file:///a''}"
    unfolding keys bs vs terms_found_iff[symmetric] using tf by auto
  then have "set ids = {''file:///a''}" using n by simp
  moreover have "ReturnValue 1 ids \<in> set (effects self2)" using e by simp
  ultimately have c3: "\<exists>self1 self2 ids.
      execute_search ascii_externals report_bookmark_app 1 [''report'', ''2023''] = Inr self1 \<and>
      run ascii_externals self1 ([] @ [Finished]) = Inr self2 \<and>
      ReturnValue 1 ids \<in> set (effects self2) \<and>
      set ids = {''file:///a''}"
    using ex r by (intro exI[of _ self1] exI[of _ self2] exI[of _ ids]) simp
  have c4: "map_sum id effects
     (run ascii_externals report_bookmark_app
        [GetInitialResultSet 1 [''report'', ''2023''], Finished]) =
   Inr [EngineNew 0, ApplicationHold,
        EngineSetQuery 0 \<lparr>query_text = ''report 2023'', query_location = ''file:///home/user''\<rparr>,
        EngineStart 0, ReturnValue 1 [''file:///a''], ApplicationRelease, EngineUnref 0]"
    by (simp add: report_bookmark_app_def eval_defs)
  have c5: "terms_found (prepare_string_for_compare ascii_externals ''My Documents'')
     (g_strsplit (prepare_string_for_compare ascii_externals (g_strjoinv [''doc''])))"
    and c6: "terms_found (prepare_string_for_compare ascii_externals ''My Documents'')
     (g_strsplit (prepare_string_for_compare ascii_externals (g_strjoinv [''my'', ''doc''])))"
    and c7: "\<not> terms_found (prepare_string_for_compare ascii_externals ''My Documents'')
     (g_strsplit (prepare_string_for_compare ascii_externals (g_strjoinv [''xyz''])))"
    by (simp_all add: eval_defs)
  show ?thesis using h1 h2 h3 h4 c3 c4 c5 c6 c7 by (intro conjI)
qed

text \<open>
  Three runs in which every whitespace-separated term is part of the name of the
  bookmark and its URI is not in the result. The one term \<^verbatim>\<open>a<TAB>b\<close> against a bookmark
  named \<^verbatim>\<open>b a\<close>: the scan has the single term \<^verbatim>\<open>a<TAB>b\<close> and the reply is empty. The
  one term \<^verbatim>\<open>a\<close> against a bookmark named \<^verbatim>\<open>a\<close>: the request is answered with the empty
  list before the scan. The scenario of the spec with a volume that is not mounted: the
  scan faults.
\<close>

theorem C5_tab_single_character_unmounted:
  "spec_whitespace_terms
     (prepare_string_for_compare ascii_externals (g_strjoinv [[CHR ''a'', CHR 0x09, CHR ''b'']])) =
     [''a'', ''b''] \<and>
   strstr (prepare_string_for_compare ascii_externals ''b a'') ''a'' = Some ''a'' \<and>
   strstr (prepare_string_for_compare ascii_externals ''b a'') ''b'' = Some ''b a'' \<and>
   terms_found (prepare_string_for_compare ascii_externals ''b a'')
     (g_strsplit (prepare_string_for_compare ascii_externals
        (g_strjoinv [[CHR ''a'', CHR 0x09, CHR ''b'']]))) = False \<and>
   map_sum id effects
     (run ascii_externals b_a_bookmark_app
        [GetInitialResultSet 1 [[CHR ''a'', CHR 0x09, CHR ''b'']], Finished]) =
   Inr [EngineNew 0, ApplicationHold,
        EngineSetQuery 0 \<lparr>query_text = [CHR ''a'', CHR 0x09, CHR ''b''],
                           query_location = ''file:///home/user''\<rparr>,
        EngineStart 0, ReturnValue 1 [], ApplicationRelease, EngineUnref 0] \<and>
   terms_found (prepare_string_for_compare ascii_externals ''a'')
     (g_strsplit (prepare_string_for_compare ascii_externals (g_strjoinv [''a'']))) = True \<and>
   map_sum id effects (handle_get_initial_result_set ascii_externals a_bookmark_app 1 [''a'']) =
     Inr [ReturnValue 1 []] \<and>
   terms_found (prepare_string_for_compare ascii_externals ''2023 Report Draft'')
     (g_strsplit (prepare_string_for_compare ascii_externals
        (g_strjoinv [''report'', ''2023'']))) = True \<and>
   handle_get_initial_result_set ascii_externals
     (report_bookmark_app\<lparr>volumes := unmounted_volume_monitor\<rparr>) 1 [''report'', ''2023''] =
     Inl NullPointer"
  by (simp add: b_a_bookmark_app_def a_bookmark_app_def report_bookmark_app_def
        unmounted_volume_monitor_def is_whitespace_def eval_defs)

subsection \<open>The metadata cache\<close>

lemma missing_files_loop_eq:
  "missing_files_loop ext cache rs acc =
     rev (map (nautilus_file_get_by_uri ext) (missed_uris cache rs)) @ acc"
  by (induction rs arbitrary: acc) (simp_all add: missed_uris_def)

lemma missing_files_Nil:
  "(missing_files_loop ext cache rs [] = []) = (missed_uris cache rs = [])"
  by (simp add: missing_files_loop_eq)

lemma attributes_ready_loop_keys:
  "fst ` set (metas_cache (attributes_ready_loop ext self fs)) =
     fst ` set (metas_cache self) \<union> file_uri ` set fs"
  by (induction fs arbitrary: self) (auto simp: g_hash_table_insert_def dom_update)

lemma lookup_None_iff: "(g_hash_table_lookup h k = None) = (k \<notin> fst ` set h)"
  by (simp add: g_hash_table_lookup_def map_of_eq_None_iff)

lemma file_meta_id: "map_of (file_meta ext self file) ''id'' = Some (VString (file_uri file))"
  by (simp add: file_meta_def Let_def)

lemma attributes_ready_loop_cache_ok:
  "cache_ok (metas_cache self) \<Longrightarrow> cache_ok (metas_cache (attributes_ready_loop ext self fs))"
  by (induction fs arbitrary: self)
     (simp_all add: cache_ok_def g_hash_table_insert_def update_all file_meta_id)

lemma metas_from_cache_total:
  "\<forall>u \<in> set us. g_hash_table_lookup cache u \<noteq> None \<Longrightarrow>
   metas_from_cache cache us = Inr (map (\<lambda>u. the (g_hash_table_lookup cache u)) us)"
  by (induction us) auto

lemma metas_from_cache_Inr_iff:
  "(\<exists>ms. metas_from_cache cache us = Inr ms) = (\<forall>u \<in> set us. g_hash_table_lookup cache u \<noteq> None)"
  by (induction us) (auto split: option.splits sum.splits)

lemma cache_ok_lookup:
  "cache_ok cache \<Longrightarrow> g_hash_table_lookup cache k = Some m \<Longrightarrow>
   map_of m ''id'' = Some (VString k)"
proof -
  assume a: "cache_ok cache" and b: "g_hash_table_lookup cache k = Some m"
  have "(k, m) \<in> set cache" using b by (simp add: g_hash_table_lookup_def map_of_SomeD)
  with a have "map_of (snd (k, m)) ''id'' = Some (VString (fst (k, m)))"
    unfolding cache_ok_def list_all_iff by blast
  then show ?thesis by simp
qed

lemma metas_from_cache_ids:
  "cache_ok cache \<Longrightarrow> metas_from_cache cache us = Inr ms \<Longrightarrow>
   map (\<lambda>m. map_of m ''id'') ms = map (\<lambda>u. Some (VString u)) us"
  by (induction us arbitrary: ms)
     (auto split: option.splits sum.splits dest: cache_ok_lookup)

lemma handle_get_result_metas_sync:
  assumes "missed_uris (metas_cache self) results = []"
  shows "\<exists>ms. metas_from_cache (metas_cache self) results = Inr ms \<and>
              handle_get_result_metas ext self invoc results =
                Inr (self\<lparr>effects := effects self @ [ReturnMetas invoc ms]\<rparr>)"
proof -
  have "\<forall>u \<in> set results. g_hash_table_lookup (metas_cache self) u \<noteq> None"
    using assms by (auto simp: missed_uris_def filter_empty_conv)
  from metas_from_cache_total[OF this] show ?thesis
    using assms
    by (simp add: handle_get_result_metas_def Let_def missing_files_Nil
          result_metas_return_from_cache_def)
qed

lemma completed_cache_has_results:
  assumes rt: "\<forall>u \<in> set results. file_uri (nautilus_file_get_by_uri ext u) = u"
  shows "\<forall>u \<in> set results.
           g_hash_table_lookup
             (metas_cache (attributes_ready_loop ext self
                (missing_files_loop ext (metas_cache self0) results []))) u \<noteq> None \<or>
           g_hash_table_lookup (metas_cache self0) u \<noteq> None"
proof
  fix u assume u: "u \<in> set results"
  show "g_hash_table_lookup
             (metas_cache (attributes_ready_loop ext self
                (missing_files_loop ext (metas_cache self0) results []))) u \<noteq> None \<or>
           g_hash_table_lookup (metas_cache self0) u \<noteq> None"
  proof (cases "g_hash_table_lookup (metas_cache self0) u = None")
    case True
    then have "u \<in> set (missed_uris (metas_cache self0) results)"
      using u by (simp add: missed_uris_def)
    then have "file_uri (nautilus_file_get_by_uri ext u) \<in>
                 file_uri ` set (missing_files_loop ext (metas_cache self0) results [])"
      by (simp add: missing_files_loop_eq)
    then show ?thesis using rt u
      by (simp add: lookup_None_iff attributes_ready_loop_keys)
  next
    case False
    then show ?thesis by simp
  qed
qed


lemma attributes_ready_loop_keeps:
  "g_hash_table_lookup (metas_cache self) k \<noteq> None \<Longrightarrow>
   g_hash_table_lookup (metas_cache (attributes_ready_loop ext self fs)) k \<noteq> None"
  by (simp add: lookup_None_iff attributes_ready_loop_keys)


lemma dispatch_cache_ok:
  assumes d: "dispatch ext self ev = Inr self'" and k: "cache_ok (metas_cache self)"
  shows "cache_ok (metas_cache self')"
proof (cases ev)
  case (GetInitialResultSet i t)
  then show ?thesis using d k
    by (auto simp: handle_get_initial_result_set_def dest!: execute_search_Inr)
next
  case (GetSubsearchResultSet i p t)
  then show ?thesis using d k
    by (auto simp: handle_get_subsearch_result_set_def dest!: execute_search_Inr)
next
  case (GetResultMetas i r)
  then show ?thesis using d k by (auto dest!: handle_get_result_metas_Inr)
next
  case (HitsAdded hs)
  then show ?thesis using d k
    by (auto simp: search_hits_added_cb_def split: option.splits if_splits)
next
  case (HitsSubtracted hs)
  then show ?thesis using d k
    by (auto simp: search_hits_subtracted_cb_def split: option.splits if_splits)
next
  case Finished
  then show ?thesis using d k
    by (auto simp: search_finished_cb_def Let_def finish_current_search_fields split: option.splits)
next
  case (Error m)
  then show ?thesis using d k
    by (auto simp: search_error_cb_def finish_current_search_fields split: option.splits)
next
  case (AttributesReady fs dt)
  then show ?thesis using d k
    by (auto simp: result_list_attributes_ready_cb_def attributes_ready_loop_cache_ok
          dest!: return_from_cache_Inr)
qed

lemma run_cache_ok:
  "run ext self evs = Inr self' \<Longrightarrow> cache_ok (metas_cache self) \<Longrightarrow> cache_ok (metas_cache self')"
  by (induction evs arbitrary: self) (auto split: sum.splits dest: dispatch_cache_ok)

lemma init_cache_ok: "cache_ok (metas_cache (nautilus_shell_search_provider_app_init bs monitor))"
  by (simp add: cache_ok_def nautilus_shell_search_provider_app_init_def)

text \<open>The state after a completed metadata request, and its reply.\<close>

lemma get_result_metas_completed:
  assumes rt: "\<forall>u \<in> set results. file_uri (nautilus_file_get_by_uri ext u) = u"
  shows "\<exists>self1 ms pre.
           run ext self (get_result_metas_events ext self invoc results) = Inr self1 \<and>
           effects self1 = effects self @ pre @ [ReturnMetas invoc ms] \<and>
           metas_from_cache (metas_cache self1) results = Inr ms \<and>
           missed_uris (metas_cache self1) results = [] \<and>
           (cache_ok (metas_cache self) \<longrightarrow> cache_ok (metas_cache self1)) \<and>
           (missed_uris (metas_cache self) results = [] \<longrightarrow>
              pre = [] \<and> handle_get_result_metas ext self invoc results = Inr self1)"
proof (cases "missed_uris (metas_cache self) results = []")
  case True
  from handle_get_result_metas_sync[OF True, of ext invoc] obtain ms where
    m: "metas_from_cache (metas_cache self) results = Inr ms"
    and h: "handle_get_result_metas ext self invoc results =
              Inr (self\<lparr>effects := effects self @ [ReturnMetas invoc ms]\<rparr>)"
    by blast
  show ?thesis
    using True m h
    by (intro exI[of _ "self\<lparr>effects := effects self @ [ReturnMetas invoc ms]\<rparr>"]
              exI[of _ ms] exI[of _ "[]"])
       (simp add: get_result_metas_events_def missing_files_Nil)
next
  case False
  let ?files = "missing_files_loop ext (metas_cache self) results []"
  let ?data = "\<lparr>rmd_invocation = invoc, rmd_uris = results\<rparr>"
  let ?pre = "map FileGetByUri (missed_uris (metas_cache self) results) @
                [CallWhenReady ?files ?data]"
  let ?s1 = "self\<lparr>effects := effects self @ ?pre\<rparr>"
  let ?s2 = "attributes_ready_loop ext ?s1 ?files"
  have nf: "?files \<noteq> []" using False by (simp add: missing_files_Nil)
  have h: "handle_get_result_metas ext self invoc results = Inr ?s1"
    using nf by (simp add: handle_get_result_metas_def Let_def)
  have all: "\<forall>u \<in> set results. g_hash_table_lookup (metas_cache ?s2) u \<noteq> None"
  proof
    fix u assume u: "u \<in> set results"
    from completed_cache_has_results[OF rt, of ?s1 self, rule_format, OF u]
    show "g_hash_table_lookup (metas_cache ?s2) u \<noteq> None"
      using attributes_ready_loop_keeps[of ?s1 u ext ?files] by auto
  qed
  from metas_from_cache_total[OF all] obtain ms where
    m: "metas_from_cache (metas_cache ?s2) results = Inr ms" by blast
  let ?s3 = "?s2\<lparr>effects := effects ?s2 @ [ReturnMetas invoc ms]\<rparr>"
  have cb: "result_list_attributes_ready_cb ext ?s1 ?files ?data = Inr ?s3"
    using m by (simp add: result_list_attributes_ready_cb_def result_metas_return_from_cache_def)
  have r: "run ext self (get_result_metas_events ext self invoc results) = Inr ?s3"
    using nf h cb by (simp add: get_result_metas_events_def Let_def)
  have e: "effects ?s3 = effects self @ ?pre @ [ReturnMetas invoc ms]"
    by (simp add: attributes_ready_loop_fields)
  have mz: "missed_uris (metas_cache ?s3) results = []"
    using all by (auto simp: missed_uris_def filter_empty_conv)
  have ok: "cache_ok (metas_cache self) \<longrightarrow> cache_ok (metas_cache ?s3)"
    using attributes_ready_loop_cache_ok[of ?s1 ext ?files] by simp
  show ?thesis
    using r e m mz ok False
    by (intro exI[of _ ?s3] exI[of _ ms] exI[of _ ?pre]) simp
qed




lemmas metas_eval_defs = nautilus_shell_search_provider_app_init_def no_volumes_def
  get_result_metas_events_def handle_get_result_metas_def missed_uris_def
  g_hash_table_lookup_def g_hash_table_insert_def result_list_attributes_ready_cb_def
  result_metas_return_from_cache_def file_meta_def get_display_name_def get_gicon_def
  nautilus_bookmark_list_item_with_uri_def ascii_externals_def example_meta_def Let_def



text \<open>
  When the file object of every requested URI reports that URI, a metadata request in a
  reachable state, completed by the metadata source when it had to be, is answered with
  one record for each requested identifier, in the order of the request; with nothing
  missing from the cache the handler itself sends the reply.
\<close>

lemma get_result_metas_records_in_order:
  assumes reach: "run ext (nautilus_shell_search_provider_app_init bs monitor) evs = Inr self"
      and rt: "\<forall>u \<in> set results. file_uri (nautilus_file_get_by_uri ext u) = u"
  shows "\<exists>self1 ms pre.
           run ext self (get_result_metas_events ext self invoc results) = Inr self1 \<and>
           effects self1 = effects self @ pre @ [ReturnMetas invoc ms] \<and>
           length ms = length results \<and>
           map (\<lambda>m. map_of m ''id'') ms = map (\<lambda>u. Some (VString u)) results \<and>
           ms = map (\<lambda>u. the (g_hash_table_lookup (metas_cache self1) u)) results \<and>
           (missed_uris (metas_cache self) results = [] \<longrightarrow>
              pre = [] \<and> handle_get_result_metas ext self invoc results = Inr self1)"
proof -
  have ok: "cache_ok (metas_cache self)" using run_cache_ok[OF reach init_cache_ok] .
  from get_result_metas_completed[OF rt, of self invoc] obtain self1 ms pre where
    r: "run ext self (get_result_metas_events ext self invoc results) = Inr self1"
    and e: "effects self1 = effects self @ pre @ [ReturnMetas invoc ms]"
    and m: "metas_from_cache (metas_cache self1) results = Inr ms"
    and ok1: "cache_ok (metas_cache self1)"
    and s: "missed_uris (metas_cache self) results = [] \<longrightarrow>
              pre = [] \<and> handle_get_result_metas ext self invoc results = Inr self1"
    using ok by blast
  have ids: "map (\<lambda>m. map_of m ''id'') ms = map (\<lambda>u. Some (VString u)) results"
    using metas_from_cache_ids[OF ok1 m] .
  then have len: "length ms = length results" using map_eq_imp_length_eq by blast
  have "\<forall>u \<in> set results. g_hash_table_lookup (metas_cache self1) u \<noteq> None"
    using m metas_from_cache_Inr_iff[of "metas_cache self1" results] by blast
  from metas_from_cache_total[OF this] m
  have ms: "ms = map (\<lambda>u. the (g_hash_table_lookup (metas_cache self1) u)) results" by simp
  show ?thesis using r e len ids ms s by blast
qed

lemma get_result_metas_records_in_order_example:
  "run ascii_externals (nautilus_shell_search_provider_app_init [] no_volumes)
     [GetResultMetas 1 [''file:///b''],
      AttributesReady [nautilus_file_get_by_uri ascii_externals ''file:///b'']
        \<lparr>rmd_invocation = 1, rmd_uris = [''file:///b'']\<rparr>] =
   Inr ((nautilus_shell_search_provider_app_init [] no_volumes)
          \<lparr>metas_cache := [(''file:///b'', example_meta ''file:///b'')],
           effects := [FileGetByUri ''file:///b'',
                       CallWhenReady [nautilus_file_get_by_uri ascii_externals ''file:///b'']
                         \<lparr>rmd_invocation = 1, rmd_uris = [''file:///b'']\<rparr>,
                       ReturnMetas 1 [example_meta ''file:///b'']]\<rparr>) \<and>
   list_all (\<lambda>u. file_uri (nautilus_file_get_by_uri ascii_externals u) = u)
     [''file:///b'', ''file:///a'', ''file:///b''] \<and>
   (\<exists>self1 ms pre.
      run ascii_externals
        ((nautilus_shell_search_provider_app_init [] no_volumes)
          \<lparr>metas_cache := [(''file:///b'', example_meta ''file:///b'')],
           effects := [FileGetByUri ''file:///b'',
                       CallWhenReady [nautilus_file_get_by_uri ascii_externals ''file:///b'']
                         \<lparr>rmd_invocation = 1, rmd_uris = [''file:///b'']\<rparr>,
                       ReturnMetas 1 [example_meta ''file:///b'']]\<rparr>)
        (get_result_metas_events ascii_externals
          ((nautilus_shell_search_provider_app_init [] no_volumes)
            \<lparr>metas_cache := [(''file:///b'', example_meta ''file:///b'')],
             effects := [FileGetByUri ''file:///b'',
                       CallWhenReady [nautilus_file_get_by_uri ascii_externals ''file:///b'']
                         \<lparr>rmd_invocation = 1, rmd_uris = [''file:///b'']\<rparr>,
                       ReturnMetas 1 [example_meta ''file:///b'']]\<rparr>) 2
          [''file:///b'', ''file:///a'', ''file:///b'']) = Inr self1 \<and>
      effects self1 =
        [FileGetByUri ''file:///b'',
         CallWhenReady [nautilus_file_get_by_uri ascii_externals ''file:///b'']
           \<lparr>rmd_invocation = 1, rmd_uris = [''file:///b'']\<rparr>,
         ReturnMetas 1 [example_meta ''file:///b'']] @ pre @ [ReturnMetas 2 ms] \<and>
      map (\<lambda>m. map_of m ''id'') ms =
        [Some (VString ''file:///b''), Some (VString ''file:///a''), Some (VString ''file:///b'')])"
proof -
  let ?s = "(nautilus_shell_search_provider_app_init [] no_volumes)
          \<lparr>metas_cache := [(''file:///b'', example_meta ''file:///b'')],
           effects := [FileGetByUri ''file:///b'',
                       CallWhenReady [nautilus_file_get_by_uri ascii_externals ''file:///b'']
                         \<lparr>rmd_invocation = 1, rmd_uris = [''file:///b'']\<rparr>,
                       ReturnMetas 1 [example_meta ''file:///b'']]\<rparr>"
  have h1: "run ascii_externals (nautilus_shell_search_provider_app_init [] no_volumes)
     [GetResultMetas 1 [''file:///b''],
      AttributesReady [nautilus_file_get_by_uri ascii_externals ''file:///b'']
        \<lparr>rmd_invocation = 1, rmd_uris = [''file:///b'']\<rparr>] = Inr ?s"
    by (simp add: metas_eval_defs)
  have h2: "\<forall>u \<in> set [''file:///b'', ''file:///a'', ''file:///b''].
      file_uri (nautilus_file_get_by_uri ascii_externals u) = u"
    by (simp add: ascii_externals_def)
  from get_result_metas_records_in_order[OF h1 h2, of 2] obtain self1 and ms :: "meta list" and pre where
    "run ascii_externals ?s (get_result_metas_events ascii_externals ?s 2
          [''file:///b'', ''file:///a'', ''file:///b'']) = Inr self1"
    "effects self1 = effects ?s @ pre @ [ReturnMetas 2 ms]"
    "map (\<lambda>m. map_of m ''id'') ms =
       map (\<lambda>u. Some (VString u)) [''file:///b'', ''file:///a'', ''file:///b'']"
    by blast
  then have c: "\<exists>self1 ms pre.
      run ascii_externals ?s (get_result_metas_events ascii_externals ?s 2
          [''file:///b'', ''file:///a'', ''file:///b'']) = Inr self1 \<and>
      effects self1 =
        [FileGetByUri ''file:///b'',
         CallWhenReady [nautilus_file_get_by_uri ascii_externals ''file:///b'']
           \<lparr>rmd_invocation = 1, rmd_uris = [''file:///b'']\<rparr>,
         ReturnMetas 1 [example_meta ''file:///b'']] @ pre @ [ReturnMetas 2 ms] \<and>
      map (\<lambda>m. map_of m ''id'') ms =
        [Some (VString ''file:///b''), Some (VString ''file:///a''), Some (VString ''file:///b'')]"
    by (intro exI[of _ self1] exI[of _ ms] exI[of _ pre]) simp
  have h2': "list_all (\<lambda>u. file_uri (nautilus_file_get_by_uri ascii_externals u) = u)
     [''file:///b'', ''file:///a'', ''file:///b'']"
    using h2 by (simp add: list_all_iff)
  show ?thesis using h1 h2' c by (intro conjI)
qed

text \<open>
  When a requested URI is missing from the cache and no file made for the request reports
  it, the completed request faults, whatever else the file source does.
\<close>

lemma metas_from_cache_fault:
  "u \<in> set us \<Longrightarrow> g_hash_table_lookup cache u = None \<Longrightarrow>
   metas_from_cache cache us = Inl NullPointer"
proof (induction us)
  case Nil
  then show ?case by simp
next
  case (Cons a us)
  show ?case
  proof (cases "g_hash_table_lookup cache a")
    case None
    then show ?thesis by simp
  next
    case (Some m)
    then have "u \<in> set us" using Cons.prems by auto
    from Cons.IH[OF this Cons.prems(2)] show ?thesis using Some by simp
  qed
qed

lemma unreported_uri_faults:
  assumes u: "u \<in> set results"
      and miss: "g_hash_table_lookup (metas_cache self) u = None"
      and other: "\<forall>r \<in> set results. file_uri (nautilus_file_get_by_uri ext r) \<noteq> u"
  shows "run ext self (get_result_metas_events ext self invoc results) = Inl NullPointer"
proof -
  let ?files = "missing_files_loop ext (metas_cache self) results []"
  let ?data = "\<lparr>rmd_invocation = invoc, rmd_uris = results\<rparr>"
  let ?s1 = "self\<lparr>effects := effects self @
               map FileGetByUri (missed_uris (metas_cache self) results) @
               [CallWhenReady ?files ?data]\<rparr>"
  have "u \<in> set (missed_uris (metas_cache self) results)"
    using u miss by (simp add: missed_uris_def)
  then have nf: "?files \<noteq> []" by (auto simp: missing_files_Nil)
  have h: "handle_get_result_metas ext self invoc results = Inr ?s1"
    using nf by (simp add: handle_get_result_metas_def Let_def)
  have "u \<notin> file_uri ` set ?files"
    using other by (auto simp: missing_files_loop_eq missed_uris_def)
  then have "g_hash_table_lookup (metas_cache (attributes_ready_loop ext ?s1 ?files)) u = None"
    using miss by (simp add: lookup_None_iff attributes_ready_loop_keys)
  from metas_from_cache_fault[OF u this]
  have "result_list_attributes_ready_cb ext ?s1 ?files ?data = Inl NullPointer"
    by (simp add: result_list_attributes_ready_cb_def result_metas_return_from_cache_def)
  then show ?thesis
    using nf h by (simp add: get_result_metas_events_def Let_def)
qed

text \<open>
  Claim C8. The reply is to hold one record for each requested identifier. The callback
  stores each record under the URI the file reports, and the reply looks up the
  requested strings; \<^verbatim>\<open>handle_get_result_metas\<close> tests the result of the lookup,
  \<^verbatim>\<open>result_metas_return_from_cache\<close> does not. With a file source that reports
  \<^verbatim>\<open>file:///tmp\<close> for \<^verbatim>\<open>file:///tmp/\<close>, a request for \<^verbatim>\<open>file:///tmp/\<close> registers the
  callback, the callback stores the record under \<^verbatim>\<open>file:///tmp\<close>, the lookup of
  \<^verbatim>\<open>file:///tmp/\<close> gives nothing, and the null record handed to the builder is a fault:
  the request gets no record for its identifier.
\<close>

theorem C8_unreported_uri_faults:
  "file_uri (nautilus_file_get_by_uri canonical_externals ''file:///tmp/'') = ''file:///tmp'' \<and>
   handle_get_result_metas canonical_externals
     (nautilus_shell_search_provider_app_init [] no_volumes) 1 [''file:///tmp/''] =
   Inr ((nautilus_shell_search_provider_app_init [] no_volumes)
          \<lparr>effects :=
             [FileGetByUri ''file:///tmp/'',
              CallWhenReady [nautilus_file_get_by_uri canonical_externals ''file:///tmp/'']
                \<lparr>rmd_invocation = 1, rmd_uris = [''file:///tmp/'']\<rparr>]\<rparr>) \<and>
   metas_cache
     (attributes_ready_loop canonical_externals
        (nautilus_shell_search_provider_app_init [] no_volumes)
        [nautilus_file_get_by_uri canonical_externals ''file:///tmp/'']) =
     [(''file:///tmp'', example_meta ''file:///tmp'')] \<and>
   g_hash_table_lookup [(''file:///tmp'', example_meta ''file:///tmp'')] ''file:///tmp/'' = None \<and>
   result_list_attributes_ready_cb canonical_externals
     ((nautilus_shell_search_provider_app_init [] no_volumes)
          \<lparr>effects :=
             [FileGetByUri ''file:///tmp/'',
              CallWhenReady [nautilus_file_get_by_uri canonical_externals ''file:///tmp/'']
                \<lparr>rmd_invocation = 1, rmd_uris = [''file:///tmp/'']\<rparr>]\<rparr>)
     [nautilus_file_get_by_uri canonical_externals ''file:///tmp/'']
     \<lparr>rmd_invocation = 1, rmd_uris = [''file:///tmp/'']\<rparr> = Inl NullPointer"
  by (simp add: metas_eval_defs canonical_externals_def canonical_uri_def)

end
